theory Spec2Isabelle
  imports Main "HOL-Library.Word"
begin

unbundle bit_operations_syntax

section \<open>The filter block of a table: builder and reader (table/filter_block.cc)\<close>

subsection \<open>Bytes, slices and fixed-width integers\<close>

type_synonym byte = "8 word"
type_synonym bytes = "byte list"
type_synonym u32 = "32 word"
type_synonym u64 = "64 word"

text \<open>
  \<^verbatim>\<open>Slice(base + pos, len)\<close>: the \<open>len\<close> bytes of a buffer that start at position
  \<open>pos\<close>.
\<close>

definition Slice :: "bytes \<Rightarrow> nat \<Rightarrow> nat \<Rightarrow> bytes" where
  "Slice buf pos len = take len (drop pos buf)"

text \<open>
  Modelled from the spec: \<^verbatim>\<open>PutFixed32\<close> and \<^verbatim>\<open>DecodeFixed32\<close> live in util/coding.h,
  which is not among the sources. The spec fixes them: every directory entry and the
  directory start are 4-byte little-endian unsigned integers. \<open>PutFixed32 dst v\<close> is the
  buffer \<open>dst\<close> after the call; \<open>DecodeFixed32\<close> reads the first four bytes of what the
  pointer addresses.
\<close>

definition EncodeFixed32 :: "u32 \<Rightarrow> bytes" where
  "EncodeFixed32 v =
     [ucast v, ucast (drop_bit 8 v), ucast (drop_bit 16 v), ucast (drop_bit 24 v)]"

definition PutFixed32 :: "bytes \<Rightarrow> u32 \<Rightarrow> bytes" where
  "PutFixed32 dst v = dst @ EncodeFixed32 v"

fun DecodeFixed32 :: "bytes \<Rightarrow> u32" where
  "DecodeFixed32 (b0 # b1 # b2 # b3 # rest) =
     (ucast b0 OR push_bit 8 (ucast b1) OR push_bit 16 (ucast b2) OR push_bit 24 (ucast b3))"
| "DecodeFixed32 bs = 0"

text \<open>
  A read of four bytes through a pointer \<open>pos\<close> bytes into the buffer \<open>buf\<close>. The C++
  reads whatever memory is there; the model answers \<open>None\<close> when the four bytes are
  not all inside the buffer.
\<close>

definition read_fixed32 :: "bytes \<Rightarrow> nat \<Rightarrow> u32 option" where
  "read_fixed32 buf pos =
     (if pos + 4 \<le> length buf then Some (DecodeFixed32 (drop pos buf)) else None)"

subsection \<open>The filter policy\<close>

text \<open>
  Modelled from the spec: the policy (leveldb/filter_policy.h) is an external
  collaborator and a parameter of everything below. \<^verbatim>\<open>CreateFilter(keys, n, dst)\<close>
  appends filter bytes for the keys \<open>keys[0..n-1]\<close> to \<open>dst\<close>: the field
  \<open>policy_CreateFilter\<close> maps the key list the policy sees to the bytes it appends.
  \<^verbatim>\<open>KeyMayMatch(key, filter)\<close> is the field \<open>policy_KeyMayMatch\<close>.
\<close>

record FilterPolicy =
  policy_CreateFilter :: "bytes list \<Rightarrow> bytes"
  policy_KeyMayMatch :: "bytes \<Rightarrow> bytes \<Rightarrow> bool"

subsection \<open>FilterBlockBuilder\<close>

text \<open>\<^verbatim>\<open>kFilterBaseLg = 11\<close>, \<^verbatim>\<open>kFilterBase = 1 << kFilterBaseLg\<close>.\<close>

definition kFilterBaseLg :: nat where
  "kFilterBaseLg = 11"

definition kFilterBase :: nat where
  "kFilterBase = push_bit kFilterBaseLg 1"

text \<open>
  The members of the builder. A member \<^verbatim>\<open>keys_\<close> of the source is \<open>keys_'\<close> here, since
  a name cannot end in an underscore. Values of type \<^verbatim>\<open>size_t\<close> (the sizes of strings and
  vectors, the entries of \<^verbatim>\<open>start_\<close>) are natural numbers. The entries of
  \<^verbatim>\<open>filter_offsets_\<close> are 32-bit words, as \<^verbatim>\<open>PutFixed32\<close> writes them and as
  \<^verbatim>\<open>array_offset\<close> is declared: a size stored there is truncated to 32 bits.
\<close>

record FilterBlockBuilder =
  keys_' :: bytes
  start_' :: "nat list"
  result_' :: bytes
  tmp_keys_' :: "bytes list"
  filter_offsets_' :: "u32 list"

definition FilterBlockBuilder_init :: FilterBlockBuilder where
  "FilterBlockBuilder_init =
     \<lparr>keys_' = [], start_' = [], result_' = [], tmp_keys_' = [], filter_offsets_' = []\<rparr>"

text \<open>
  \<^verbatim>\<open>AddKey\<close>: record where the key starts in \<^verbatim>\<open>keys_\<close>, then append its bytes.
\<close>

definition AddKey :: "FilterBlockBuilder \<Rightarrow> bytes \<Rightarrow> FilterBlockBuilder" where
  "AddKey b key =
     (let b1 = b\<lparr>start_' := start_' b @ [length (keys_' b)]\<rparr>
      in b1\<lparr>keys_' := keys_' b1 @ key\<rparr>)"

text \<open>
  \<^verbatim>\<open>GenerateFilter\<close>. With no pending key only the directory entry is pushed. Otherwise
  the keys are cut out of \<^verbatim>\<open>keys_\<close> at the recorded starts, the entry is pushed and the
  policy appends its filter. The policy is handed the count \<^verbatim>\<open>static_cast<int>(num_keys)\<close>,
  so it sees the first \<open>n\<close> keys for that signed 32-bit \<open>n\<close>. The length
  \<^verbatim>\<open>start_[i + 1] - start_[i]\<close> is a difference of natural numbers; the starts that
  \<^verbatim>\<open>AddKey\<close> records never decrease, so it never goes below zero.
\<close>

definition GenerateFilter :: "FilterPolicy \<Rightarrow> FilterBlockBuilder \<Rightarrow> FilterBlockBuilder" where
  "GenerateFilter policy b =
     (let num_keys = length (start_' b) in
      if num_keys = 0 then
        b\<lparr>filter_offsets_' := filter_offsets_' b @ [word_of_nat (length (result_' b))]\<rparr>
      else
        let b1 = b\<lparr>start_' := start_' b @ [length (keys_' b)]\<rparr>;
            b2 = b1\<lparr>tmp_keys_' :=
                   map (\<lambda>i. Slice (keys_' b1) (start_' b1 ! i) (start_' b1 ! (i + 1) - start_' b1 ! i))
                     [0..<num_keys]\<rparr>;
            b3 = b2\<lparr>filter_offsets_' := filter_offsets_' b2 @ [word_of_nat (length (result_' b2))]\<rparr>;
            n = sint (word_of_nat num_keys :: 32 word);
            b4 = b3\<lparr>result_' := result_' b3 @ policy_CreateFilter policy (take (nat n) (tmp_keys_' b3))\<rparr>
        in b4\<lparr>tmp_keys_' := [], keys_' := [], start_' := []\<rparr>)"

text \<open>
  \<^verbatim>\<open>StartBlock\<close>: the loop runs \<^verbatim>\<open>GenerateFilter\<close> until the directory has
  \<open>filter_index\<close> entries; each round adds one entry, so it ends. The assertion is a
  branch of the model: \<open>None\<close> when it fails.
\<close>

function StartBlock_loop :: "FilterPolicy \<Rightarrow> nat \<Rightarrow> FilterBlockBuilder \<Rightarrow> FilterBlockBuilder" where
  "StartBlock_loop policy filter_index b =
     (if filter_index > length (filter_offsets_' b)
      then StartBlock_loop policy filter_index (GenerateFilter policy b)
      else b)"
  by pat_completeness auto
termination
  by (relation "measure (\<lambda>(policy, filter_index, b). filter_index - length (filter_offsets_' b))")
     (auto simp: GenerateFilter_def Let_def)

declare StartBlock_loop.simps [simp del]

definition StartBlock :: "FilterPolicy \<Rightarrow> FilterBlockBuilder \<Rightarrow> u64 \<Rightarrow> FilterBlockBuilder option" where
  "StartBlock policy b block_offset =
     (let filter_index = block_offset div word_of_nat kFilterBase in
      if \<not> (unat filter_index \<ge> length (filter_offsets_' b)) then None
      else Some (StartBlock_loop policy (unat filter_index) b))"

text \<open>
  \<^verbatim>\<open>Finish\<close>: flush the pending keys, append the directory, its start and the shift
  byte. The result is the returned slice together with the builder afterwards.
\<close>

definition Finish :: "FilterPolicy \<Rightarrow> FilterBlockBuilder \<Rightarrow> bytes \<times> FilterBlockBuilder" where
  "Finish policy b =
     (let b1 = (if start_' b \<noteq> [] then GenerateFilter policy b else b);
          array_offset = (word_of_nat (length (result_' b1)) :: u32);
          b2 = b1\<lparr>result_' := fold (\<lambda>off res. PutFixed32 res off) (filter_offsets_' b1) (result_' b1)\<rparr>;
          b3 = b2\<lparr>result_' := PutFixed32 (result_' b2) array_offset\<rparr>;
          b4 = b3\<lparr>result_' := result_' b3 @ [word_of_nat kFilterBaseLg]\<rparr>
      in (result_' b4, b4))"

subsection \<open>FilterBlockReader\<close>

text \<open>
  The members of the reader. \<open>data_'\<close> is \<open>None\<close> for the null pointer and otherwise
  the borrowed buffer it points to; \<open>offset_'\<close> is \<open>None\<close> for the null pointer and
  otherwise its distance from \<open>data_'\<close>. \<^verbatim>\<open>base_lg_\<close> is a \<^verbatim>\<open>size_t\<close> that receives a
  \<^verbatim>\<open>char\<close>: \<open>base_lg_'\<close> is the 64-bit word that the conversion of the signed byte
  yields, so a byte of \<^verbatim>\<open>0x80\<close> or more is sign-extended. The policy is not a member
  here: it is an argument of \<^verbatim>\<open>KeyMayMatch\<close>.
\<close>

record FilterBlockReader =
  data_' :: "bytes option"
  offset_' :: "nat option"
  num_' :: nat
  base_lg_' :: u64

definition FilterBlockReader_init :: "bytes \<Rightarrow> FilterBlockReader" where
  "FilterBlockReader_init contents =
     (let r0 = \<lparr>data_' = None, offset_' = None, num_' = 0, base_lg_' = 0\<rparr>;
          n = length contents in
      if n < 5 then r0
      else
        let r1 = r0\<lparr>base_lg_' := scast (contents ! (n - 1))\<rparr>;
            last_word = DecodeFixed32 (drop (n - 5) contents) in
        if unat last_word > n - 5 then r1
        else
          let r2 = r1\<lparr>data_' := Some contents\<rparr>;
              r3 = r2\<lparr>offset_' := Some (unat last_word)\<rparr>
          in r3\<lparr>num_' := (n - 5 - unat last_word) div 4\<rparr>)"

text \<open>
  The shift \<^verbatim>\<open>block_offset >> base_lg_\<close> of a 64-bit value by a 64-bit count. For a
  count below 64 it is the logical shift. For a count of 64 or more C++ leaves it
  undefined; the model takes what the compiled code does on x86-64 and AArch64, whose
  shift instructions use the low six bits of the count (the count modulo 64).
\<close>

definition shr64 :: "u64 \<Rightarrow> u64 \<Rightarrow> u64" where
  "shr64 x n = drop_bit (unat (n AND 63)) x"

text \<open>
  \<^verbatim>\<open>KeyMayMatch\<close> of the reader. The method is not declared const, so the model
  returns the reader afterwards next to the answer. The answer is \<open>None\<close> where the
  C++ would read through a null pointer or outside the buffer.
\<close>

definition KeyMayMatch ::
  "FilterPolicy \<Rightarrow> FilterBlockReader \<Rightarrow> u64 \<Rightarrow> bytes \<Rightarrow> bool option \<times> FilterBlockReader" where
  "KeyMayMatch policy r block_offset key =
     (let index = unat (shr64 block_offset (base_lg_' r)) in
      if index < num_' r then
        (case (data_' r, offset_' r) of
           (Some d, Some off) \<Rightarrow>
             (case (read_fixed32 d (off + index * 4), read_fixed32 d (off + index * 4 + 4)) of
                (Some start, Some limit) \<Rightarrow>
                  if start \<le> limit \<and> unat limit \<le> off then
                    (Some (policy_KeyMayMatch policy key
                             (Slice d (unat start) (unat limit - unat start))), r)
                  else if start = limit then (Some False, r)
                  else (Some True, r)
              | _ \<Rightarrow> (None, r))
         | _ \<Rightarrow> (None, r))
      else (Some True, r))"

subsection \<open>Call sequences\<close>

text \<open>
  The calls a table writer makes on a builder before \<^verbatim>\<open>Finish\<close>, and running a
  sequence of them; a failed assertion ends the run with \<open>None\<close>.
\<close>

datatype builder_call = AddKey_call bytes | StartBlock_call u64

fun run_calls :: "FilterPolicy \<Rightarrow> builder_call list \<Rightarrow> FilterBlockBuilder \<Rightarrow> FilterBlockBuilder option" where
  "run_calls policy [] b = Some b"
| "run_calls policy (AddKey_call key # cs) b = run_calls policy cs (AddKey b key)"
| "run_calls policy (StartBlock_call block_offset # cs) b =
     (case StartBlock policy b block_offset of
        None \<Rightarrow> None
      | Some b1 \<Rightarrow> run_calls policy cs b1)"

section \<open>Notions used in the statements and proofs\<close>

subsection \<open>The pending keys\<close>

text \<open>
  The start offsets \<^verbatim>\<open>AddKey\<close> records for the keys \<open>ks\<close> when the first of them starts
  at position \<open>a\<close>, and the pending keys of a builder: \<open>pending b ks\<close> says that the
  flattened buffer and the start list of \<open>b\<close> hold exactly the keys \<open>ks\<close>, in order.
\<close>

fun starts_from :: "nat \<Rightarrow> bytes list \<Rightarrow> nat list" where
  "starts_from a [] = []"
| "starts_from a (k # ks) = a # starts_from (a + length k) ks"

definition pending :: "FilterBlockBuilder \<Rightarrow> bytes list \<Rightarrow> bool" where
  "pending b ks \<longleftrightarrow> keys_' b = concat ks \<and> start_' b = starts_from 0 ks"

text \<open>
  The builder after the first statement of \<^verbatim>\<open>Finish\<close>, which generates a last filter when
  keys are pending. Its result buffer holds the filter bytes and nothing else yet,
  and its directory is the one \<^verbatim>\<open>Finish\<close> writes.
\<close>

definition flushed :: "FilterPolicy \<Rightarrow> FilterBlockBuilder \<Rightarrow> FilterBlockBuilder" where
  "flushed policy b = (if start_' b \<noteq> [] then GenerateFilter policy b else b)"

subsection \<open>The directory of a builder\<close>

text \<open>
  The invariant of the builder: the keys are pending as described above, the directory
  entries never decrease, and none points beyond the result buffer.
\<close>

definition offsets_ok :: "FilterBlockBuilder \<Rightarrow> bool" where
  "offsets_ok b \<longleftrightarrow>
     sorted (map unat (filter_offsets_' b)) \<and>
     (\<forall>off \<in> set (filter_offsets_' b). unat off \<le> length (result_' b))"

definition builder_inv :: "FilterBlockBuilder \<Rightarrow> bool" where
  "builder_inv b \<longleftrightarrow> (\<exists>ks. pending b ks) \<and> offsets_ok b"

text \<open>
  The filter of bucket \<open>i\<close> in the result buffer of a builder: it runs from entry \<open>i\<close> to
  the next entry, or to the end of the buffer for the last bucket.
\<close>

definition filter_limit :: "FilterBlockBuilder \<Rightarrow> nat \<Rightarrow> nat" where
  "filter_limit b i =
     (if i + 1 < length (filter_offsets_' b) then unat (filter_offsets_' b ! (i + 1))
      else length (result_' b))"

definition filter_bytes :: "FilterBlockBuilder \<Rightarrow> nat \<Rightarrow> bytes" where
  "filter_bytes b i =
     Slice (result_' b) (unat (filter_offsets_' b ! i))
       (filter_limit b i - unat (filter_offsets_' b ! i))"

subsection \<open>Policies without false negatives\<close>

text \<open>
  The contract of the policy: a key of the list a filter was created from may match
  that filter.
\<close>

definition no_false_negatives :: "FilterPolicy \<Rightarrow> bool" where
  "no_false_negatives policy \<longleftrightarrow>
     (\<forall>keys k. k \<in> set keys \<longrightarrow> policy_KeyMayMatch policy k (policy_CreateFilter policy keys))"

text \<open>
  A key \<open>k\<close> is covered for bucket \<open>i\<close> when it is pending while \<open>i\<close> entries are written,
  or when bucket \<open>i\<close> is closed and its filter may match \<open>k\<close>.
\<close>

definition covered :: "FilterPolicy \<Rightarrow> FilterBlockBuilder \<Rightarrow> nat \<Rightarrow> bytes \<Rightarrow> bool" where
  "covered policy b i k \<longleftrightarrow>
     (length (filter_offsets_' b) = i \<and> (\<exists>ks. pending b ks \<and> k \<in> set ks)) \<or>
     (i < length (filter_offsets_' b) \<and> policy_KeyMayMatch policy k (filter_bytes b i))"

subsection \<open>Call sequences\<close>

text \<open>
  The block offsets a call sequence reports, in order, and the number of keys it adds
  before it closes bucket \<open>i\<close>: the \<^verbatim>\<open>AddKey\<close> calls that come before the first
  \<^verbatim>\<open>StartBlock\<close> call whose filter index is above \<open>i\<close>.
\<close>

fun block_offsets :: "builder_call list \<Rightarrow> u64 list" where
  "block_offsets [] = []"
| "block_offsets (AddKey_call key # cs) = block_offsets cs"
| "block_offsets (StartBlock_call block_offset # cs) = block_offset # block_offsets cs"

fun keys_until_close :: "nat \<Rightarrow> builder_call list \<Rightarrow> nat" where
  "keys_until_close i [] = 0"
| "keys_until_close i (AddKey_call key # cs) = Suc (keys_until_close i cs)"
| "keys_until_close i (StartBlock_call block_offset # cs) =
     (if i < unat block_offset div kFilterBase then 0 else keys_until_close i cs)"

subsection \<open>The directory of a finished block\<close>

text \<open>
  The directory of a finished block as the reader decodes it: its start is the 4-byte
  word before the last byte, and entry \<open>i\<close> is the 4-byte word \<open>4 * i\<close> bytes after
  the start.
\<close>

definition directory_start :: "bytes \<Rightarrow> nat" where
  "directory_start contents = unat (DecodeFixed32 (drop (length contents - 5) contents))"

definition directory_entry :: "bytes \<Rightarrow> nat \<Rightarrow> u32" where
  "directory_entry contents i = DecodeFixed32 (drop (directory_start contents + 4 * i) contents)"

subsection \<open>Two policies\<close>

text \<open>
  Two policies for the concrete instances. The filter of \<open>example_policy\<close> is the
  concatenation of the keys, and a key may match when all its bytes occur in the
  filter. The filter of \<open>huge_policy\<close> is \<open>2 ^ 32\<close> zero bytes whatever the keys, and
  every key may match a filter that is not empty. Neither has a false negative.
\<close>

definition example_policy :: FilterPolicy where
  "example_policy =
     \<lparr>policy_CreateFilter = concat, policy_KeyMayMatch = (\<lambda>key filter. set key \<subseteq> set filter)\<rparr>"

definition huge_filter :: bytes where
  "huge_filter = replicate (2 ^ 32) 0"

definition huge_policy :: FilterPolicy where
  "huge_policy =
     \<lparr>policy_CreateFilter = (\<lambda>keys. huge_filter),
      policy_KeyMayMatch = (\<lambda>key filter. filter \<noteq> [])\<rparr>"

text \<open>
  For a run with very many keys: \<open>add_keys b ks\<close> is the builder after \<^verbatim>\<open>AddKey\<close> of each
  key of \<open>ks\<close> in order, and \<open>many_keys\<close> are \<open>2 ^ 31 - 1\<close> copies of the key 7.
\<close>

definition add_keys :: "FilterBlockBuilder \<Rightarrow> bytes list \<Rightarrow> FilterBlockBuilder" where
  "add_keys b ks = fold (\<lambda>key b. AddKey b key) ks b"

definition many_keys :: "bytes list" where
  "many_keys = replicate (2 ^ 31 - 1) [7]"

section \<open>Fixed-width integers and slices\<close>

lemma length_EncodeFixed32: "length (EncodeFixed32 v) = 4"
  by (simp add: EncodeFixed32_def)

lemma DecodeFixed32_Encode: "DecodeFixed32 (EncodeFixed32 v @ rest) = v"
proof -
  have "(ucast (ucast v :: byte) OR push_bit 8 (ucast (ucast (drop_bit 8 v) :: byte))
        OR push_bit 16 (ucast (ucast (drop_bit 16 v) :: byte))
        OR push_bit 24 (ucast (ucast (drop_bit 24 v) :: byte)) :: u32) = v"
  proof (rule bit_word_eqI)
    fix n :: nat
    assume "n < LENGTH(32)"
    then have n: "n < 32" by simp
    consider "n < 8" | "8 \<le> n" "n < 16" | "16 \<le> n" "n < 24" | "24 \<le> n"
      by linarith
    then show "bit (ucast (ucast v :: byte) OR push_bit 8 (ucast (ucast (drop_bit 8 v) :: byte))
        OR push_bit 16 (ucast (ucast (drop_bit 16 v) :: byte))
        OR push_bit 24 (ucast (ucast (drop_bit 24 v) :: byte)) :: u32) n = bit v n"
      using n by cases (auto simp: bit_simps)
  qed
  then show ?thesis
    by (simp add: EncodeFixed32_def)
qed

lemma unat_small: "n < 2 ^ 32 \<Longrightarrow> unat (word_of_nat n :: 32 word) = n"
  by (simp add: unat_of_nat)

lemma sint_small:
  assumes "n < 2 ^ 31" shows "nat (sint (word_of_nat n :: 32 word)) = n"
proof -
  have "uint (word_of_nat n :: 32 word) = int n"
    using assms by (simp add: uint_nat unat_of_nat)
  moreover have "signed_take_bit 31 (int n) = int n"
    using assms by (intro signed_take_bit_int_eq_self) auto
  ultimately show ?thesis
    by (simp add: sint_uint)
qed

lemma shr64_11: "shr64 x 11 = drop_bit 11 x"
  by (simp add: shr64_def)

text \<open>Below 64 the shift is the plain one; in general the count is taken modulo 64.\<close>

lemma mask_6: "(63 :: u64) = mask 6"
  by (simp add: mask_eq_exp_minus_1)
lemma shr64_small: "n < 64 \<Longrightarrow> shr64 x n = drop_bit (unat n) x"
proof -
  assume "n < 64"
  then have "n < 2 ^ 6" by simp
  then have "n AND mask 6 = n" by (rule less_mask_eq)
  then show ?thesis by (simp add: shr64_def mask_6)
qed
lemma shr64_mod: "shr64 x n = drop_bit (unat n mod 64) x"
proof -
  have "unat (n AND mask 6) = unat n mod 2 ^ 6"
    by (simp flip: take_bit_eq_mask add: unsigned_take_bit_eq take_bit_eq_mod unat_mod)
  then show ?thesis by (simp add: shr64_def mask_6)
qed

lemma word32_wraps: "(4294967296 :: u32) = 0"
proof -
  have "(word_of_nat (2 ^ 32) :: u32) = 0"
    by (simp add: word_of_nat_eq_0_iff)
  then show ?thesis by simp
qed

lemma Slice_prefix:
  "pos + len \<le> length R \<Longrightarrow> Slice (R @ rest) pos len = Slice R pos len"
  by (simp add: Slice_def)

lemma fold_PutFixed32:
  "fold (\<lambda>off res. PutFixed32 res off) offs res = res @ concat (map EncodeFixed32 offs)"
  by (induction offs arbitrary: res) (simp_all add: PutFixed32_def)

lemma length_directory: "length (concat (map EncodeFixed32 offs)) = 4 * length offs"
  by (induction offs) (simp_all add: length_EncodeFixed32)

lemma drop_directory:
  "i < length offs \<Longrightarrow>
     drop (4 * i) (concat (map EncodeFixed32 offs)) =
       EncodeFixed32 (offs ! i) @ concat (map EncodeFixed32 (drop (Suc i) offs))"
proof (induction offs arbitrary: i)
  case Nil
  then show ?case by simp
next
  case (Cons a offs)
  show ?case
  proof (cases i)
    case 0
    then show ?thesis by simp
  next
    case (Suc j)
    with Cons.prems have "j < length offs" by simp
    from Cons.IH [OF this] Suc show ?thesis
      by (simp add: length_EncodeFixed32)
  qed
qed

text \<open>Reading the \<open>i\<close>-th word of a directory that starts at position \<open>length R\<close>.\<close>

lemma read_directory:
  assumes "i < length es"
  shows "read_fixed32 (R @ concat (map EncodeFixed32 es) @ rest) (length R + i * 4) = Some (es ! i)"
proof -
  have "length R + i * 4 + 4 \<le> length (R @ concat (map EncodeFixed32 es) @ rest)"
    using assms by (simp add: length_directory)
  moreover have "drop (length R + i * 4) (R @ concat (map EncodeFixed32 es) @ rest) =
      EncodeFixed32 (es ! i) @ concat (map EncodeFixed32 (drop (Suc i) es)) @ rest"
    using assms drop_directory [OF assms] by (simp add: length_directory mult.commute)
  ultimately show ?thesis
    by (simp add: read_fixed32_def DecodeFixed32_Encode del: append_assoc)
qed

section \<open>The pending keys\<close>

lemma length_starts_from: "length (starts_from a ks) = length ks"
  by (induction ks arbitrary: a) auto

lemma starts_from_append:
  "starts_from a (ks @ [k]) = starts_from a ks @ [a + length (concat ks)]"
  by (induction ks arbitrary: a) (auto simp: add.assoc)

lemma starts_from_nth:
  "i \<le> length ks \<Longrightarrow>
     (starts_from a ks @ [a + length (concat ks)]) ! i = a + length (concat (take i ks))"
proof (induction ks arbitrary: a i)
  case Nil
  then show ?case by simp
next
  case (Cons k ks)
  show ?case
  proof (cases i)
    case 0
    then show ?thesis by simp
  next
    case (Suc j)
    with Cons.prems have "j \<le> length ks" by simp
    from Cons.IH [OF this, of "a + length k"] Suc show ?thesis
      by (simp add: add.assoc)
  qed
qed

lemma Slice_concat_nth:
  assumes "i < length ks"
  shows "Slice (concat ks) (length (concat (take i ks)))
           (length (concat (take (Suc i) ks)) - length (concat (take i ks))) = ks ! i"
proof -
  have ks: "ks = take i ks @ ks ! i # drop (Suc i) ks"
    using assms by (simp add: id_take_nth_drop)
  have "concat ks = concat (take i ks) @ ks ! i @ concat (drop (Suc i) ks)"
    by (subst ks) simp
  moreover have "length (concat (take (Suc i) ks)) - length (concat (take i ks)) = length (ks ! i)"
    using assms by (simp add: take_Suc_conv_app_nth)
  ultimately show ?thesis
    by (simp add: Slice_def)
qed

text \<open>Cutting the flattened buffer at the recorded starts gives the keys back.\<close>

lemma cut_keys_starts:
  "map (\<lambda>i. Slice (concat ks) ((starts_from 0 ks @ [length (concat ks)]) ! i)
             ((starts_from 0 ks @ [length (concat ks)]) ! (i + 1)
                - (starts_from 0 ks @ [length (concat ks)]) ! i)) [0..<length ks] = ks"
proof (rule nth_equalityI)
  show "length (map (\<lambda>i. Slice (concat ks) ((starts_from 0 ks @ [length (concat ks)]) ! i)
             ((starts_from 0 ks @ [length (concat ks)]) ! (i + 1)
                - (starts_from 0 ks @ [length (concat ks)]) ! i)) [0..<length ks]) = length ks"
    by simp
next
  fix i
  assume "i < length (map (\<lambda>i. Slice (concat ks) ((starts_from 0 ks @ [length (concat ks)]) ! i)
             ((starts_from 0 ks @ [length (concat ks)]) ! (i + 1)
                - (starts_from 0 ks @ [length (concat ks)]) ! i)) [0..<length ks])"
  then have i: "i < length ks" by simp
  have a: "(starts_from 0 ks @ [length (concat ks)]) ! i = length (concat (take i ks))"
    using starts_from_nth [of i ks 0] i by simp
  have b: "(starts_from 0 ks @ [length (concat ks)]) ! Suc i = length (concat (take (Suc i) ks))"
    using starts_from_nth [of "Suc i" ks 0] i by simp
  show "map (\<lambda>i. Slice (concat ks) ((starts_from 0 ks @ [length (concat ks)]) ! i)
             ((starts_from 0 ks @ [length (concat ks)]) ! (i + 1)
                - (starts_from 0 ks @ [length (concat ks)]) ! i)) [0..<length ks] ! i = ks ! i"
    using i by (simp add: a b Slice_concat_nth del: take_Suc)
qed

lemma pending_init: "pending FilterBlockBuilder_init []"
  by (simp add: pending_def FilterBlockBuilder_init_def)

lemma pending_AddKey: "pending b ks \<Longrightarrow> pending (AddKey b key) (ks @ [key])"
  by (simp add: pending_def AddKey_def Let_def starts_from_append)

lemma pending_length: "pending b ks \<Longrightarrow> length (start_' b) = length ks"
  by (simp add: pending_def length_starts_from)

section \<open>One filter: GenerateFilter\<close>

lemma GenerateFilter_empty:
  "start_' b = [] \<Longrightarrow>
     GenerateFilter policy b =
       b\<lparr>filter_offsets_' := filter_offsets_' b @ [word_of_nat (length (result_' b))]\<rparr>"
  by (simp add: GenerateFilter_def)

lemma GenerateFilter_pending:
  assumes "pending b ks" and "ks \<noteq> []" and "length ks < 2 ^ 31"
  shows "GenerateFilter policy b =
       b\<lparr>filter_offsets_' := filter_offsets_' b @ [word_of_nat (length (result_' b))],
         result_' := result_' b @ policy_CreateFilter policy ks,
         tmp_keys_' := [], keys_' := [], start_' := []\<rparr>"
proof -
  have len: "length (start_' b) = length ks"
    using assms(1) by (rule pending_length)
  have cut: "map (\<lambda>i. Slice (keys_' b) ((start_' b @ [length (keys_' b)]) ! i)
               ((start_' b @ [length (keys_' b)]) ! (i + 1) - (start_' b @ [length (keys_' b)]) ! i))
               [0..<length ks] = ks"
    using assms(1) cut_keys_starts [of ks] by (simp add: pending_def)
  show ?thesis
    using assms(2,3) len cut by (simp add: GenerateFilter_def Let_def sint_small)
qed

text \<open>
  With \<open>2 ^ 31\<close> pending keys the count handed to the policy is negative, and the filter
  is created from no key at all.
\<close>

lemma GenerateFilter_key_count_wraps:
  assumes "length (start_' b) = 2 ^ 31"
  shows "result_' (GenerateFilter policy b) = result_' b @ policy_CreateFilter policy []"
proof -
  have "sint (word_of_nat (2 ^ 31) :: 32 word) = - (2 ^ 31)"
    by simp
  then have "nat (sint (word_of_nat (length (start_' b)) :: 32 word)) = 0"
    by (simp add: assms)
  then show ?thesis
    using assms by (simp add: GenerateFilter_def Let_def)
qed

lemma GenerateFilter_offsets:
  "filter_offsets_' (GenerateFilter policy b) =
     filter_offsets_' b @ [word_of_nat (length (result_' b))]"
  by (simp add: GenerateFilter_def Let_def)

lemma GenerateFilter_result:
  "\<exists>f. result_' (GenerateFilter policy b) = result_' b @ f"
  by (simp add: GenerateFilter_def Let_def)

lemma GenerateFilter_start:
  "start_' (GenerateFilter policy b) = []"
  by (simp add: GenerateFilter_def Let_def)

lemma GenerateFilter_pending_after:
  "pending b ks \<Longrightarrow> pending (GenerateFilter policy b) []"
  by (cases ks) (auto simp: GenerateFilter_def Let_def pending_def)

lemma offsets_ok_GenerateFilter:
  assumes "offsets_ok b" and "length (result_' (GenerateFilter policy b)) < 2 ^ 32"
  shows "offsets_ok (GenerateFilter policy b)"
proof -
  obtain f where f: "result_' (GenerateFilter policy b) = result_' b @ f"
    using GenerateFilter_result by blast
  with assms(2) have small: "length (result_' b) < 2 ^ 32" by simp
  then have u: "unat (word_of_nat (length (result_' b)) :: u32) = length (result_' b)"
    by (rule unat_small)
  show ?thesis
    using assms(1) u
    by (auto simp: offsets_ok_def GenerateFilter_offsets f sorted_append)
qed

lemma builder_inv_GenerateFilter:
  assumes "builder_inv b" and "length (result_' (GenerateFilter policy b)) < 2 ^ 32"
  shows "builder_inv (GenerateFilter policy b)"
  using assms offsets_ok_GenerateFilter GenerateFilter_pending_after
  unfolding builder_inv_def by blast

lemma filter_bytes_GenerateFilter_old:
  assumes ok: "offsets_ok b" and i: "i < length (filter_offsets_' b)"
    and small: "length (result_' (GenerateFilter policy b)) < 2 ^ 32"
  shows "filter_bytes (GenerateFilter policy b) i = filter_bytes b i"
proof -
  obtain f where f: "result_' (GenerateFilter policy b) = result_' b @ f"
    using GenerateFilter_result by blast
  with small have "length (result_' b) < 2 ^ 32" by simp
  then have u: "unat (word_of_nat (length (result_' b)) :: u32) = length (result_' b)"
    by (rule unat_small)
  have s: "unat (filter_offsets_' b ! i) \<le> length (result_' b)"
    using ok i by (simp add: offsets_ok_def)
  have lim: "filter_limit (GenerateFilter policy b) i = filter_limit b i"
    using i u by (auto simp: filter_limit_def GenerateFilter_offsets nth_append)
  have l: "filter_limit b i \<le> length (result_' b)"
    using ok i by (simp add: filter_limit_def offsets_ok_def)
  show ?thesis
    using i s l by (simp add: filter_bytes_def lim f GenerateFilter_offsets nth_append Slice_def)
qed

lemma filter_bytes_GenerateFilter_new:
  assumes "pending b ks" and "ks \<noteq> []" and "length ks < 2 ^ 31"
    and small: "length (result_' (GenerateFilter policy b)) < 2 ^ 32"
  shows "filter_bytes (GenerateFilter policy b) (length (filter_offsets_' b)) =
           policy_CreateFilter policy ks"
proof -
  note g = GenerateFilter_pending [OF assms(1,2,3), of policy]
  from small have "length (result_' b) < 2 ^ 32" by (simp add: g)
  then have u: "unat (word_of_nat (length (result_' b)) :: u32) = length (result_' b)"
    by (rule unat_small)
  show ?thesis
    by (simp add: filter_bytes_def filter_limit_def g u Slice_def)
qed

lemma covered_GenerateFilter:
  assumes nofn: "no_false_negatives policy"
    and inv: "builder_inv b" and cov: "covered policy b i k"
    and keys: "length (filter_offsets_' b) = i \<Longrightarrow> length (start_' b) < 2 ^ 31"
    and small: "length (result_' (GenerateFilter policy b)) < 2 ^ 32"
  shows "covered policy (GenerateFilter policy b) i k"
proof (cases "i < length (filter_offsets_' b)")
  case True
  with cov have "policy_KeyMayMatch policy k (filter_bytes b i)"
    by (auto simp: covered_def)
  moreover have "filter_bytes (GenerateFilter policy b) i = filter_bytes b i"
    using inv True small by (intro filter_bytes_GenerateFilter_old) (simp_all add: builder_inv_def)
  ultimately show ?thesis
    using True by (simp add: covered_def GenerateFilter_offsets)
next
  case False
  with cov obtain ks where i: "length (filter_offsets_' b) = i" and ks: "pending b ks" "k \<in> set ks"
    by (auto simp: covered_def)
  from ks(2) have ne: "ks \<noteq> []" by auto
  from ks(1) keys [OF i] have len: "length ks < 2 ^ 31" by (simp add: pending_length)
  have "filter_bytes (GenerateFilter policy b) i = policy_CreateFilter policy ks"
    using filter_bytes_GenerateFilter_new [OF ks(1) ne len small] i by simp
  moreover have "policy_KeyMayMatch policy k (policy_CreateFilter policy ks)"
    using nofn ks(2) by (simp add: no_false_negatives_def)
  ultimately show ?thesis
    using i by (simp add: covered_def GenerateFilter_offsets)
qed

section \<open>The loop of StartBlock\<close>

lemma kFilterBase_eq: "kFilterBase = 2048"
  by (simp add: kFilterBase_def kFilterBaseLg_def)

lemma kFilterBase_word: "(word_of_nat kFilterBase :: u64) = 2048"
  by (simp add: kFilterBase_def kFilterBaseLg_def)

lemma filter_index_unat: "unat (block_offset div (2048 :: u64)) = unat block_offset div 2048"
  by (simp add: unat_div)

lemma StartBlock_loop_offsets_length:
  "length (filter_offsets_' (StartBlock_loop policy filter_index b)) =
     max filter_index (length (filter_offsets_' b))"
proof (induction policy filter_index b rule: StartBlock_loop.induct)
  case (1 policy filter_index b)
  show ?case
  proof (cases "filter_index > length (filter_offsets_' b)")
    case True
    with "1.IH" show ?thesis
      by (subst StartBlock_loop.simps) (simp add: GenerateFilter_offsets)
  next
    case False
    then show ?thesis
      by (subst StartBlock_loop.simps) simp
  qed
qed

lemma StartBlock_loop_prefix:
  "\<exists>f offs. result_' (StartBlock_loop policy filter_index b) = result_' b @ f \<and>
     filter_offsets_' (StartBlock_loop policy filter_index b) = filter_offsets_' b @ offs"
proof (induction policy filter_index b rule: StartBlock_loop.induct)
  case (1 policy filter_index b)
  show ?case
  proof (cases "filter_index > length (filter_offsets_' b)")
    case True
    from "1.IH" [OF True] obtain f offs where
      "result_' (StartBlock_loop policy filter_index (GenerateFilter policy b)) =
         result_' (GenerateFilter policy b) @ f"
      "filter_offsets_' (StartBlock_loop policy filter_index (GenerateFilter policy b)) =
         filter_offsets_' (GenerateFilter policy b) @ offs"
      by blast
    moreover obtain g where "result_' (GenerateFilter policy b) = result_' b @ g"
      using GenerateFilter_result by blast
    ultimately show ?thesis
      using True by (subst (1 2) StartBlock_loop.simps) (simp add: GenerateFilter_offsets)
  next
    case False
    then show ?thesis
      by (subst (1 2) StartBlock_loop.simps) simp
  qed
qed

text \<open>An invariant of \<open>GenerateFilter\<close> that only asks more of smaller results is one of the loop.\<close>

lemma StartBlock_loop_invariant:
  assumes step: "\<And>b. P b \<Longrightarrow> length (result_' (GenerateFilter policy b)) < N \<Longrightarrow> P (GenerateFilter policy b)"
    and "P b" and "length (result_' (StartBlock_loop policy filter_index b)) < N"
  shows "P (StartBlock_loop policy filter_index b)"
  using assms
proof (induction policy filter_index b rule: StartBlock_loop.induct)
  case (1 policy filter_index b)
  note step = "1.prems"(1)
  show ?case
  proof (cases "filter_index > length (filter_offsets_' b)")
    case True
    have eq: "StartBlock_loop policy filter_index b =
        StartBlock_loop policy filter_index (GenerateFilter policy b)"
      using True by (subst StartBlock_loop.simps) simp
    obtain f where "result_' (StartBlock_loop policy filter_index (GenerateFilter policy b)) =
         result_' (GenerateFilter policy b) @ f"
      using StartBlock_loop_prefix by blast
    with "1.prems"(3) eq have "length (result_' (GenerateFilter policy b)) < N"
      by simp
    with "1.prems"(2) have "P (GenerateFilter policy b)"
      by (rule step)
    with "1.IH" [OF True step] "1.prems"(3) eq show ?thesis
      by simp
  next
    case False
    with "1.prems"(2) show ?thesis
      by (subst StartBlock_loop.simps) simp
  qed
qed

lemma StartBlock_loop_no_keys:
  assumes "start_' b = []"
  shows "start_' (StartBlock_loop policy filter_index b) = [] \<and>
     result_' (StartBlock_loop policy filter_index b) = result_' b"
proof (rule StartBlock_loop_invariant
    [where P = "\<lambda>b'. start_' b' = [] \<and> result_' b' = result_' b"
       and N = "Suc (length (result_' (StartBlock_loop policy filter_index b)))"])
  fix b0 :: FilterBlockBuilder
  assume "start_' b0 = [] \<and> result_' b0 = result_' b"
  then show "start_' (GenerateFilter policy b0) = [] \<and> result_' (GenerateFilter policy b0) = result_' b"
    by (simp add: GenerateFilter_empty)
qed (simp_all add: assms)

lemma StartBlock_Some:
  "StartBlock policy b block_offset = Some b1 \<longleftrightarrow>
     length (filter_offsets_' b) \<le> unat block_offset div 2048 \<and>
     b1 = StartBlock_loop policy (unat block_offset div 2048) b"
  by (auto simp: StartBlock_def Let_def kFilterBase_word filter_index_unat)

section \<open>AddKey and the fresh builder\<close>

lemma AddKey_fields:
  "filter_offsets_' (AddKey b key) = filter_offsets_' b"
  "result_' (AddKey b key) = result_' b"
  "length (start_' (AddKey b key)) = Suc (length (start_' b))"
  by (simp_all add: AddKey_def Let_def)

lemma builder_inv_init: "builder_inv FilterBlockBuilder_init"
  using pending_init by (auto simp: builder_inv_def offsets_ok_def FilterBlockBuilder_init_def)

lemma builder_inv_AddKey: "builder_inv b \<Longrightarrow> builder_inv (AddKey b key)"
  by (auto simp: builder_inv_def offsets_ok_def AddKey_fields dest: pending_AddKey)

lemma covered_AddKey: "covered policy b i k \<Longrightarrow> covered policy (AddKey b key) i k"
proof -
  have "filter_bytes (AddKey b key) i = filter_bytes b i"
    by (simp add: filter_bytes_def filter_limit_def AddKey_fields)
  moreover have "\<And>ks. pending b ks \<Longrightarrow> k \<in> set ks \<Longrightarrow> \<exists>ks'. pending (AddKey b key) ks' \<and> k \<in> set ks'"
    using pending_AddKey by fastforce
  ultimately show "covered policy b i k \<Longrightarrow> covered policy (AddKey b key) i k"
    unfolding covered_def AddKey_fields by metis
qed

section \<open>Call sequences\<close>

lemma run_calls_append:
  "run_calls policy (cs1 @ cs2) b =
     (case run_calls policy cs1 b of None \<Rightarrow> None | Some b1 \<Rightarrow> run_calls policy cs2 b1)"
proof (induction cs1 arbitrary: b)
  case Nil
  then show ?case by simp
next
  case (Cons c cs1)
  then show ?case
    by (cases c) (auto split: option.splits)
qed

lemma run_calls_result_prefix:
  "run_calls policy cs b = Some b' \<Longrightarrow> \<exists>f. result_' b' = result_' b @ f"
proof (induction cs arbitrary: b)
  case Nil
  then show ?case by simp
next
  case (Cons c cs)
  show ?case
  proof (cases c)
    case (AddKey_call key)
    with Cons.prems have "run_calls policy cs (AddKey b key) = Some b'" by simp
    from Cons.IH [OF this] show ?thesis by (simp add: AddKey_fields)
  next
    case (StartBlock_call block_offset)
    with Cons.prems obtain b1 where b1: "StartBlock policy b block_offset = Some b1"
      and r: "run_calls policy cs b1 = Some b'"
      by (auto split: option.splits)
    from b1 have "b1 = StartBlock_loop policy (unat block_offset div 2048) b"
      by (simp add: StartBlock_Some)
    then obtain f where "result_' b1 = result_' b @ f"
      using StartBlock_loop_prefix by blast
    with Cons.IH [OF r] show ?thesis by auto
  qed
qed

text \<open>Offsets that never decrease keep the assertion of \<open>StartBlock\<close> true.\<close>

lemma run_calls_sorted:
  assumes "sorted (block_offsets cs)"
    and "\<forall>off \<in> set (block_offsets cs). length (filter_offsets_' b) \<le> unat off div 2048"
  shows "\<exists>b'. run_calls policy cs b = Some b'"
  using assms
proof (induction cs arbitrary: b)
  case Nil
  then show ?case by simp
next
  case (Cons c cs)
  show ?case
  proof (cases c)
    case (AddKey_call key)
    with Cons.prems Cons.IH [of "AddKey b key"] show ?thesis
      by (simp add: AddKey_fields)
  next
    case (StartBlock_call block_offset)
    with Cons.prems have le: "length (filter_offsets_' b) \<le> unat block_offset div 2048"
      by simp
    define b1 where "b1 = StartBlock_loop policy (unat block_offset div 2048) b"
    have s: "StartBlock policy b block_offset = Some b1"
      using le by (simp add: StartBlock_Some b1_def)
    have len: "length (filter_offsets_' b1) = unat block_offset div 2048"
      using le by (simp add: b1_def StartBlock_loop_offsets_length)
    have "\<forall>off \<in> set (block_offsets cs). length (filter_offsets_' b1) \<le> unat off div 2048"
    proof
      fix off assume "off \<in> set (block_offsets cs)"
      with Cons.prems(1) StartBlock_call have "block_offset \<le> off" by simp
      then have "unat block_offset \<le> unat off" by (simp add: word_le_nat_alt)
      then show "length (filter_offsets_' b1) \<le> unat off div 2048"
        by (simp add: len div_le_mono)
    qed
    moreover have "sorted (block_offsets cs)"
      using Cons.prems(1) StartBlock_call by simp
    ultimately obtain b' where "run_calls policy cs b1 = Some b'"
      using Cons.IH by blast
    then show ?thesis
      using StartBlock_call s by simp
  qed
qed

lemma run_calls_inv:
  "run_calls policy cs b = Some b' \<Longrightarrow> length (result_' b') < 2 ^ 32 \<Longrightarrow>
     builder_inv b \<Longrightarrow> builder_inv b'"
proof (induction cs arbitrary: b)
  case Nil
  then show ?case by simp
next
  case (Cons c cs)
  show ?case
  proof (cases c)
    case (AddKey_call key)
    with Cons.prems have r: "run_calls policy cs (AddKey b key) = Some b'" by simp
    show ?thesis
      using Cons.prems by (intro Cons.IH [OF r]) (simp_all add: builder_inv_AddKey)
  next
    case (StartBlock_call block_offset)
    with Cons.prems obtain b1 where b1: "StartBlock policy b block_offset = Some b1"
      and r: "run_calls policy cs b1 = Some b'"
      by (auto split: option.splits)
    from b1 have b1_eq: "b1 = StartBlock_loop policy (unat block_offset div 2048) b"
      by (simp add: StartBlock_Some)
    obtain f where "result_' b' = result_' b1 @ f"
      using run_calls_result_prefix [OF r] by blast
    with Cons.prems(2) have small: "length (result_' b1) < 2 ^ 32" by simp
    have "builder_inv b1"
      unfolding b1_eq
      by (rule StartBlock_loop_invariant [where P = builder_inv and N = "2 ^ 32"])
         (use Cons.prems(3) small b1_eq in \<open>simp_all add: builder_inv_GenerateFilter\<close>)
    then show ?thesis
      using Cons.prems(2) by (intro Cons.IH [OF r]) simp_all
  qed
qed

text \<open>The invariant of the proof of no false negatives, along a run.\<close>

lemma run_calls_covered:
  assumes nofn: "no_false_negatives policy"
  shows "run_calls policy cs b = Some b' \<Longrightarrow> length (result_' b') < 2 ^ 32 \<Longrightarrow>
    builder_inv b \<Longrightarrow> covered policy b i k \<Longrightarrow>
    (length (filter_offsets_' b) = i \<longrightarrow> length (start_' b) + keys_until_close i cs < 2 ^ 31) \<Longrightarrow>
    builder_inv b' \<and> covered policy b' i k \<and>
    (length (filter_offsets_' b') = i \<longrightarrow> length (start_' b') < 2 ^ 31)"
proof (induction cs arbitrary: b)
  case Nil
  then show ?case by simp
next
  case (Cons c cs)
  show ?case
  proof (cases c)
    case (AddKey_call key)
    with Cons.prems have r: "run_calls policy cs (AddKey b key) = Some b'" by simp
    show ?thesis
      using Cons.prems AddKey_call
      by (intro Cons.IH [OF r]) (simp_all add: builder_inv_AddKey covered_AddKey AddKey_fields)
  next
    case (StartBlock_call block_offset)
    define idx where "idx = unat block_offset div 2048"
    from StartBlock_call Cons.prems obtain b1 where b1: "StartBlock policy b block_offset = Some b1"
      and r: "run_calls policy cs b1 = Some b'"
      by (auto split: option.splits)
    from b1 have le: "length (filter_offsets_' b) \<le> idx"
      and b1_eq: "b1 = StartBlock_loop policy idx b"
      by (simp_all add: StartBlock_Some idx_def)
    obtain f where "result_' b' = result_' b1 @ f"
      using run_calls_result_prefix [OF r] by blast
    with Cons.prems(2) have small: "length (result_' b1) < 2 ^ 32" by simp
    have i_le: "i \<le> length (filter_offsets_' b)"
      using Cons.prems(4) by (auto simp: covered_def)
    have keys: "length (filter_offsets_' b) = i \<longrightarrow>
        length (start_' b) + (if i < idx then 0 else keys_until_close i cs) < 2 ^ 31"
      using Cons.prems(5) StartBlock_call by (simp add: idx_def kFilterBase_eq)
    let ?P = "\<lambda>b. builder_inv b \<and> covered policy b i k \<and>
        (length (filter_offsets_' b) = i \<longrightarrow> length (start_' b) < 2 ^ 31)"
    have "builder_inv b1 \<and> covered policy b1 i k \<and>
        (length (filter_offsets_' b1) = i \<longrightarrow> length (start_' b1) + keys_until_close i cs < 2 ^ 31)"
    proof (cases "length (filter_offsets_' b) < idx")
      case True
      have "?P b1"
        unfolding b1_eq
      proof (rule StartBlock_loop_invariant [where P = ?P and N = "2 ^ 32"])
        fix b0
        assume p: "?P b0" and sm: "length (result_' (GenerateFilter policy b0)) < 2 ^ 32"
        have "builder_inv (GenerateFilter policy b0)"
          using p sm by (simp add: builder_inv_GenerateFilter)
        moreover have "covered policy (GenerateFilter policy b0) i k"
          using nofn p sm by (intro covered_GenerateFilter) auto
        moreover have "i \<le> length (filter_offsets_' b0)"
          using p by (auto simp: covered_def)
        ultimately show "?P (GenerateFilter policy b0)"
          by (simp add: GenerateFilter_offsets)
      next
        show "?P b" using Cons.prems(3,4) keys True i_le by auto
      next
        show "length (result_' (StartBlock_loop policy idx b)) < 2 ^ 32"
          using small b1_eq by simp
      qed
      moreover have "length (filter_offsets_' b1) = idx"
        using True by (simp add: b1_eq StartBlock_loop_offsets_length)
      ultimately show ?thesis
        using True i_le by auto
    next
      case False
      then have "b1 = b"
        by (simp add: b1_eq StartBlock_loop.simps)
      with Cons.prems(3,4) keys False le show ?thesis
        by auto
    qed
    then show ?thesis
      using Cons.prems(2) by (intro Cons.IH [OF r]) simp_all
  qed
qed

section \<open>Finish\<close>

lemma flushed_result: "\<exists>f. result_' (flushed policy b) = result_' b @ f"
  using GenerateFilter_result by (simp add: flushed_def)

lemma builder_inv_flushed:
  "builder_inv b \<Longrightarrow> length (result_' (flushed policy b)) < 2 ^ 32 \<Longrightarrow>
     builder_inv (flushed policy b)"
  by (cases "start_' b = []") (simp_all add: flushed_def builder_inv_GenerateFilter)

lemma covered_flushed:
  assumes nofn: "no_false_negatives policy"
    and inv: "builder_inv b" and cov: "covered policy b i k"
    and keys: "length (filter_offsets_' b) = i \<Longrightarrow> length (start_' b) < 2 ^ 31"
    and small: "length (result_' (flushed policy b)) < 2 ^ 32"
  shows "i < length (filter_offsets_' (flushed policy b)) \<and>
     policy_KeyMayMatch policy k (filter_bytes (flushed policy b) i)"
proof (cases "start_' b = []")
  case True
  then have "\<And>ks. pending b ks \<Longrightarrow> ks = []"
    by (metis length_0_conv pending_length)
  then have "\<not> (\<exists>ks. pending b ks \<and> k \<in> set ks)"
    by fastforce
  with cov True show ?thesis
    by (simp add: covered_def flushed_def)
next
  case False
  then have fl: "flushed policy b = GenerateFilter policy b"
    by (simp add: flushed_def)
  have "covered policy (GenerateFilter policy b) i k"
    using nofn inv cov keys small unfolding fl by (rule covered_GenerateFilter)
  moreover have "i \<le> length (filter_offsets_' b)"
    using cov by (auto simp: covered_def)
  ultimately show ?thesis
    unfolding fl by (auto simp: covered_def GenerateFilter_offsets)
qed

lemma Finish_output:
  "fst (Finish policy b) =
     result_' (flushed policy b) @ concat (map EncodeFixed32 (filter_offsets_' (flushed policy b)))
       @ EncodeFixed32 (word_of_nat (length (result_' (flushed policy b)))) @ [11]"
  unfolding Finish_def flushed_def Let_def fold_PutFixed32
  by (simp add: PutFixed32_def kFilterBaseLg_def)

lemma Finish_builder:
  "snd (Finish policy b) = (flushed policy b)\<lparr>result_' := fst (Finish policy b)\<rparr>"
  by (simp add: Finish_def flushed_def Let_def)

lemma Finish_offsets:
  "filter_offsets_' (snd (Finish policy b)) = filter_offsets_' (flushed policy b)"
  by (simp add: Finish_builder)

lemma length_Finish:
  "length (fst (Finish policy b)) =
     length (result_' (flushed policy b)) + 4 * length (filter_offsets_' (flushed policy b)) + 4 + 1"
  by (simp add: Finish_output length_directory length_EncodeFixed32)

lemma last_Finish: "last (fst (Finish policy b)) = 11"
  by (simp add: Finish_output)

section \<open>The reader\<close>

text \<open>The reader of a block that ends in a directory start \<open>a\<close> and a shift byte \<open>s\<close>.\<close>

lemma FilterBlockReader_init_block:
  assumes "unat a \<le> length body"
  shows "FilterBlockReader_init (body @ EncodeFixed32 a @ [s]) =
     \<lparr>data_' = Some (body @ EncodeFixed32 a @ [s]), offset_' = Some (unat a),
      num_' = (length body - unat a) div 4, base_lg_' = scast s\<rparr>"
proof -
  have "drop (length body) (body @ EncodeFixed32 a @ [s]) = EncodeFixed32 a @ [s]"
    by simp
  then have d: "DecodeFixed32 (drop (length body) (body @ EncodeFixed32 a @ [s])) = a"
    by (simp only: DecodeFixed32_Encode)
  have l: "(body @ EncodeFixed32 a @ [s]) ! (4 + length body) = s"
    by (simp add: nth_append length_EncodeFixed32)
  show ?thesis
    using assms d by (simp add: FilterBlockReader_init_def Let_def length_EncodeFixed32 l)
qed

lemma FilterBlockReader_init_degraded:
  assumes "length contents < 5 \<or> length contents - 5 < directory_start contents"
  shows "data_' (FilterBlockReader_init contents) = None"
    and "offset_' (FilterBlockReader_init contents) = None"
    and "num_' (FilterBlockReader_init contents) = 0"
  using assms by (auto simp: FilterBlockReader_init_def directory_start_def Let_def)

lemma FilterBlockReader_init_valid:
  assumes "data_' (FilterBlockReader_init contents) = Some d"
  shows "d = contents" and "5 \<le> length contents"
    and "directory_start contents \<le> length contents - 5"
    and "offset_' (FilterBlockReader_init contents) = Some (directory_start contents)"
    and "num_' (FilterBlockReader_init contents) = (length contents - 5 - directory_start contents) div 4"
    and "base_lg_' (FilterBlockReader_init contents) = scast (contents ! (length contents - 1))"
  using assms
  by (auto simp: FilterBlockReader_init_def directory_start_def Let_def split: if_splits)

text \<open>Both directory words of a bucket below the bucket count lie inside the buffer.\<close>

lemma valid_reads:
  assumes "data_' (FilterBlockReader_init contents) = Some d"
    and "i < num_' (FilterBlockReader_init contents)"
  shows "read_fixed32 d (directory_start contents + i * 4) = Some (directory_entry contents i)"
    and "read_fixed32 d (directory_start contents + i * 4 + 4) = Some (directory_entry contents (Suc i))"
proof -
  note v = FilterBlockReader_init_valid [OF assms(1)]
  from assms(2) have "i < (length contents - 5 - directory_start contents) div 4"
    by (simp add: v(5))
  with v(2,3) have le: "directory_start contents + i * 4 + 8 \<le> length contents"
    by arith
  show "read_fixed32 d (directory_start contents + i * 4) = Some (directory_entry contents i)"
    using le by (simp add: read_fixed32_def directory_entry_def v(1) mult.commute)
  show "read_fixed32 d (directory_start contents + i * 4 + 4) = Some (directory_entry contents (Suc i))"
    using le by (simp add: read_fixed32_def directory_entry_def v(1) mult.commute add.commute add.left_commute)
qed

text \<open>What the reader answers for a bucket below the bucket count.\<close>

lemma KeyMayMatch_valid:
  assumes "data_' (FilterBlockReader_init contents) = Some d"
    and "unat (shr64 block_offset (base_lg_' (FilterBlockReader_init contents))) = i"
    and "i < num_' (FilterBlockReader_init contents)"
  shows "fst (KeyMayMatch policy (FilterBlockReader_init contents) block_offset key) =
     Some (if directory_entry contents i \<le> directory_entry contents (Suc i) \<and>
              unat (directory_entry contents (Suc i)) \<le> directory_start contents
           then policy_KeyMayMatch policy key
                  (Slice contents (unat (directory_entry contents i))
                     (unat (directory_entry contents (Suc i)) - unat (directory_entry contents i)))
           else directory_entry contents i \<noteq> directory_entry contents (Suc i))"
  using assms valid_reads [OF assms(1,3)] FilterBlockReader_init_valid(1,4) [OF assms(1)]
  by (simp add: KeyMayMatch_def Let_def)

lemma Finish_reader:
  assumes "length (result_' (flushed policy b)) < 2 ^ 32"
  shows "FilterBlockReader_init (fst (Finish policy b)) =
     \<lparr>data_' = Some (fst (Finish policy b)),
      offset_' = Some (length (result_' (flushed policy b))),
      num_' = length (filter_offsets_' (flushed policy b)), base_lg_' = 11\<rparr>"
proof -
  define R where "R = result_' (flushed policy b)"
  define D where "D = concat (map EncodeFixed32 (filter_offsets_' (flushed policy b)))"
  have u: "unat (word_of_nat (length R) :: u32) = length R"
    using assms unfolding R_def by (rule unat_small)
  have out: "fst (Finish policy b) = (R @ D) @ EncodeFixed32 (word_of_nat (length R)) @ [11]"
    by (simp add: Finish_output R_def D_def)
  have "unat (word_of_nat (length R) :: u32) \<le> length (R @ D)"
    by (simp add: u)
  from FilterBlockReader_init_block [OF this, of 11] show ?thesis
    unfolding out [symmetric] by (simp add: u) (simp add: R_def D_def length_directory)
qed

lemma KeyMayMatch_Finish:
  assumes ok: "offsets_ok (flushed policy b)"
    and small: "length (result_' (flushed policy b)) < 2 ^ 32"
    and i: "unat (drop_bit 11 block_offset) < length (filter_offsets_' (flushed policy b))"
  shows "KeyMayMatch policy (FilterBlockReader_init (fst (Finish policy b))) block_offset key =
     (Some (policy_KeyMayMatch policy key
              (filter_bytes (flushed policy b) (unat (drop_bit 11 block_offset)))),
      FilterBlockReader_init (fst (Finish policy b)))"
proof -
  define b1 where "b1 = flushed policy b"
  define R where "R = result_' b1"
  define offs where "offs = filter_offsets_' b1"
  define a :: u32 where "a = word_of_nat (length R)"
  define j where "j = unat (drop_bit 11 block_offset)"
  have u: "unat a = length R"
    using small unfolding a_def R_def b1_def by (rule unat_small)
  have j: "j < length offs"
    using i by (simp add: j_def offs_def b1_def)
  have out: "fst (Finish policy b) = R @ concat (map EncodeFixed32 (offs @ [a])) @ [11]"
    by (simp add: Finish_output R_def offs_def a_def b1_def)
  have start: "read_fixed32 (fst (Finish policy b)) (length R + j * 4) = Some (offs ! j)"
    unfolding out using read_directory [of j "offs @ [a]" R "[11]"] j by (simp add: nth_append)
  have pos: "length R + j * 4 + 4 = length R + Suc j * 4"
    by simp
  have "read_fixed32 (R @ concat (map EncodeFixed32 (offs @ [a])) @ [11]) (length R + Suc j * 4) =
      Some ((offs @ [a]) ! Suc j)"
    using j by (intro read_directory) simp
  then have limit: "read_fixed32 (fst (Finish policy b)) (length R + j * 4 + 4) = Some ((offs @ [a]) ! Suc j)"
    unfolding out pos .
  have lim: "unat ((offs @ [a]) ! Suc j) = filter_limit b1 j"
    using j u by (auto simp: filter_limit_def offs_def [symmetric] R_def [symmetric] nth_append)
  have s_le: "unat (offs ! j) \<le> filter_limit b1 j"
  proof (cases "Suc j < length offs")
    case True
    then have "unat (offs ! j) \<le> unat (offs ! Suc j)"
      using ok by (simp add: offsets_ok_def b1_def [symmetric] offs_def [symmetric] sorted_iff_nth_mono)
    with True show ?thesis by (simp add: filter_limit_def offs_def [symmetric])
  next
    case False
    then show ?thesis
      using ok j by (simp add: filter_limit_def offsets_ok_def b1_def [symmetric] offs_def [symmetric] R_def)
  qed
  have l_le: "filter_limit b1 j \<le> length R"
    using ok by (simp add: filter_limit_def offsets_ok_def b1_def [symmetric] offs_def [symmetric] R_def)
  have word_le: "offs ! j \<le> (offs @ [a]) ! Suc j"
    using s_le lim by (simp add: word_le_nat_alt)
  have slice: "Slice (fst (Finish policy b)) (unat (offs ! j)) (filter_limit b1 j - unat (offs ! j))
      = filter_bytes b1 j"
    unfolding out filter_bytes_def offs_def [symmetric] R_def [symmetric]
    using s_le l_le by (intro Slice_prefix) simp
  show ?thesis
    unfolding Finish_reader [OF small] KeyMayMatch_def
    using j start limit word_le l_le
    by (simp add: Let_def shr64_11 j_def [symmetric] b1_def [symmetric] offs_def [symmetric]
        R_def [symmetric] lim slice)
qed

lemma directory_start_Finish:
  assumes "length (result_' (flushed policy b)) < 2 ^ 32"
  shows "directory_start (fst (Finish policy b)) = length (result_' (flushed policy b))"
  using FilterBlockReader_init_valid(4) [of "fst (Finish policy b)" "fst (Finish policy b)"]
  by (simp add: Finish_reader [OF assms])

lemma directory_entry_Finish:
  assumes small: "length (result_' (flushed policy b)) < 2 ^ 32"
    and i: "i \<le> length (filter_offsets_' (flushed policy b))"
  shows "directory_entry (fst (Finish policy b)) i =
     (filter_offsets_' (flushed policy b) @ [word_of_nat (length (result_' (flushed policy b)))]) ! i"
proof -
  define R where "R = result_' (flushed policy b)"
  define es where "es = filter_offsets_' (flushed policy b) @ [word_of_nat (length R) :: u32]"
  have out: "fst (Finish policy b) = R @ concat (map EncodeFixed32 es) @ [11]"
    by (simp add: Finish_output R_def es_def)
  have "i < length es"
    using i by (simp add: es_def)
  from read_directory [OF this, of R "[11]"]
  have "DecodeFixed32 (drop (length R + i * 4) (fst (Finish policy b))) = es ! i"
    unfolding out by (simp add: read_fixed32_def split: if_splits)
  then show ?thesis
    by (simp add: directory_entry_def directory_start_Finish [OF small] R_def es_def mult.commute)
qed

section \<open>Concrete runs and blocks\<close>

lemma example_no_false_negatives: "no_false_negatives example_policy"
  by (auto simp: no_false_negatives_def example_policy_def)

text \<open>Two buckets: the key 1 in bucket 0, the keys 2 and 3 in bucket 1.\<close>

lemma example_run_prefix: "run_calls example_policy [AddKey_call [1], StartBlock_call 2048] FilterBlockBuilder_init =
  Some \<lparr>keys_' = [], start_' = [], result_' = [1], tmp_keys_' = [], filter_offsets_' = [0]\<rparr>"
  by (simp add: AddKey_def StartBlock_def Let_def FilterBlockBuilder_init_def kFilterBase_def kFilterBaseLg_def
     StartBlock_loop.simps GenerateFilter_def Slice_def example_policy_def)

lemma example_run: "run_calls example_policy [AddKey_call [1], StartBlock_call 2048, AddKey_call [2], AddKey_call [3]] FilterBlockBuilder_init =
  Some \<lparr>keys_' = [2, 3], start_' = [0, 1], result_' = [1], tmp_keys_' = [], filter_offsets_' = [0]\<rparr>"
  by (simp add: AddKey_def StartBlock_def Let_def FilterBlockBuilder_init_def kFilterBase_def kFilterBaseLg_def
     StartBlock_loop.simps GenerateFilter_def Slice_def example_policy_def)

lemma example_flushed:
  "flushed example_policy
     \<lparr>keys_' = [2, 3], start_' = [0, 1], result_' = [1], tmp_keys_' = [], filter_offsets_' = [0]\<rparr> =
   \<lparr>keys_' = [], start_' = [], result_' = [1, 2, 3], tmp_keys_' = [], filter_offsets_' = [0, 1]\<rparr>"
  by (simp add: flushed_def GenerateFilter_def Let_def Slice_def example_policy_def)

lemma example_Finish: "fst (Finish example_policy \<lparr>keys_' = [2, 3], start_' = [0, 1], result_' = [1], tmp_keys_' = [], filter_offsets_' = [0]\<rparr>)
   = [1, 2, 3, 0, 0, 0, 0, 1, 0, 0, 0, 3, 0, 0, 0, 11]"
  by (simp add: Finish_def Let_def GenerateFilter_def Slice_def example_policy_def PutFixed32_def EncodeFixed32_def kFilterBaseLg_def)

text \<open>One key, one filter byte.\<close>

lemma one_key_Finish:
  "Finish example_policy (AddKey FilterBlockBuilder_init [7]) =
     ([7, 0, 0, 0, 0, 1, 0, 0, 0, 11],
      \<lparr>keys_' = [], start_' = [], result_' = [7, 0, 0, 0, 0, 1, 0, 0, 0, 11], tmp_keys_' = [],
       filter_offsets_' = [0]\<rparr>)"
  by (simp add: Finish_def Let_def GenerateFilter_def Slice_def example_policy_def PutFixed32_def
      EncodeFixed32_def kFilterBaseLg_def AddKey_def FilterBlockBuilder_init_def)

text \<open>Blocks whose shift byte is 64 or more.\<close>

lemma reader_shift_139:
  "FilterBlockReader_init [0, 0, 0, 0, 0, 0, 0, 0, 0, 0, 0, 0, 139] =
     \<lparr>data_' = Some [0, 0, 0, 0, 0, 0, 0, 0, 0, 0, 0, 0, 139], offset_' = Some 0, num_' = 2,
      base_lg_' = 18446744073709551499\<rparr>"
  by (simp add: FilterBlockReader_init_def Let_def)

lemma reader_shift_64:
  "FilterBlockReader_init [5, 0, 0, 0, 9, 0, 0, 0, 9, 0, 0, 0, 0, 0, 0, 0, 64] =
     \<lparr>data_' = Some [5, 0, 0, 0, 9, 0, 0, 0, 9, 0, 0, 0, 0, 0, 0, 0, 64], offset_' = Some 0, num_' = 3,
      base_lg_' = 64\<rparr>"
  by (simp add: FilterBlockReader_init_def Let_def)

text \<open>The empty key alone: its filter is empty.\<close>

lemma Finish_empty_key:
  "fst (Finish example_policy (AddKey FilterBlockBuilder_init [])) = [0, 0, 0, 0, 0, 0, 0, 0, 11]"
  by (simp add: Finish_def Let_def GenerateFilter_def Slice_def example_policy_def PutFixed32_def
      EncodeFixed32_def kFilterBaseLg_def AddKey_def FilterBlockBuilder_init_def)

text \<open>Blocks of two buckets with arbitrary directory words, and of one bucket without filter bytes.\<close>

lemma reader_two_words:
  "FilterBlockReader_init [a0, a1, a2, a3, b0, b1, b2, b3, 0, 0, 0, 0, 11] =
     \<lparr>data_' = Some [a0, a1, a2, a3, b0, b1, b2, b3, 0, 0, 0, 0, 11], offset_' = Some 0,
      num_' = 2, base_lg_' = 11\<rparr>"
  by (simp add: FilterBlockReader_init_def Let_def)

lemma reader_empty_bucket:
  "FilterBlockReader_init [0, 0, 0, 0, 0, 0, 0, 0, 11] =
     \<lparr>data_' = Some [0, 0, 0, 0, 0, 0, 0, 0, 11], offset_' = Some 0, num_' = 1, base_lg_' = 11\<rparr>"
  by (simp add: FilterBlockReader_init_def Let_def)

lemma sparse_Finish:
  assumes "start_' b = []" and "result_' b = []"
  shows "length (filter_offsets_' (snd (Finish policy b))) = length (filter_offsets_' b)"
    and "num_' (FilterBlockReader_init (fst (Finish policy b))) = length (filter_offsets_' b)"
proof -
  have fl: "flushed policy b = b"
    using assms(1) by (simp add: flushed_def)
  show "length (filter_offsets_' (snd (Finish policy b))) = length (filter_offsets_' b)"
    by (simp add: Finish_offsets fl)
  have "length (result_' (flushed policy b)) < 2 ^ 32"
    by (simp add: fl assms(2))
  from Finish_reader [OF this] show "num_' (FilterBlockReader_init (fst (Finish policy b))) = length (filter_offsets_' b)"
    by (simp add: fl)
qed

text \<open>One key, one filter of \<open>2 ^ 32\<close> bytes: the directory start wraps around to 0.\<close>

lemma length_huge_filter: "length huge_filter = 2 ^ 32"
  by (simp add: huge_filter_def)

lemma huge_filter_head: "\<exists>tl. huge_filter = 0 # 0 # 0 # 0 # 0 # 0 # 0 # 0 # tl"
proof -
  have "(2 ^ 32 :: nat) = 8 + (2 ^ 32 - 8)"
    by simp
  then have "huge_filter = replicate 8 0 @ replicate (2 ^ 32 - 8) 0"
    unfolding huge_filter_def replicate_add [symmetric] by (rule arg_cong)
  moreover have "replicate 8 (0 :: byte) = [0, 0, 0, 0, 0, 0, 0, 0]"
    by code_simp
  ultimately have "huge_filter = 0 # 0 # 0 # 0 # 0 # 0 # 0 # 0 # replicate (2 ^ 32 - 8) 0"
    by simp
  then show ?thesis
    by (rule exI)
qed

lemma huge_no_false_negatives: "no_false_negatives huge_policy"
  using length_huge_filter by (auto simp: no_false_negatives_def huge_policy_def)

lemma huge_flushed:
  "flushed huge_policy (AddKey FilterBlockBuilder_init [7]) =
     \<lparr>keys_' = [], start_' = [], result_' = huge_filter, tmp_keys_' = [], filter_offsets_' = [0]\<rparr>"
  by (simp add: flushed_def AddKey_def GenerateFilter_def Let_def FilterBlockBuilder_init_def
      huge_policy_def Slice_def)

lemma huge_Finish:
  "fst (Finish huge_policy (AddKey FilterBlockBuilder_init [7])) =
     (huge_filter @ EncodeFixed32 0) @ EncodeFixed32 0 @ [11]"
  by (simp add: Finish_output huge_flushed length_huge_filter word32_wraps)

lemma huge_reader:
  "FilterBlockReader_init (fst (Finish huge_policy (AddKey FilterBlockBuilder_init [7]))) =
     \<lparr>data_' = Some ((huge_filter @ EncodeFixed32 0) @ EncodeFixed32 0 @ [11]), offset_' = Some 0,
      num_' = 2 ^ 30 + 1, base_lg_' = 11\<rparr>"
  unfolding huge_Finish
  by (subst FilterBlockReader_init_block) (simp_all add: length_huge_filter length_EncodeFixed32)

lemma huge_query:
  "KeyMayMatch huge_policy
     \<lparr>data_' = Some ((huge_filter @ EncodeFixed32 0) @ EncodeFixed32 0 @ [11]), offset_' = Some 0,
      num_' = 2 ^ 30 + 1, base_lg_' = 11\<rparr> 0 key =
   (Some False,
     \<lparr>data_' = Some ((huge_filter @ EncodeFixed32 0) @ EncodeFixed32 0 @ [11]), offset_' = Some 0,
      num_' = 2 ^ 30 + 1, base_lg_' = 11\<rparr>)"
proof -
  obtain tl where tl: "huge_filter = 0 # 0 # 0 # 0 # 0 # 0 # 0 # 0 # tl"
    using huge_filter_head by blast
  have len: "length tl = 2 ^ 32 - 8"
    using length_huge_filter unfolding tl by simp
  show ?thesis
    unfolding tl
    by (simp add: KeyMayMatch_def Let_def read_fixed32_def Slice_def huge_policy_def len shr64_def)
qed

text \<open>Three buckets: the key 1 in bucket 0, the keys 2 and 3 in bucket 1, the key 4 in bucket 2.\<close>

lemma three_buckets_run:
  "run_calls example_policy
     ([AddKey_call [1], StartBlock_call 2048] @ AddKey_call [2] #
        [AddKey_call [3], StartBlock_call 4096, AddKey_call [4]]) FilterBlockBuilder_init =
   Some \<lparr>keys_' = [4], start_' = [0], result_' = [1, 2, 3], tmp_keys_' = [],
          filter_offsets_' = [0, 1]\<rparr>"
  by (simp add: AddKey_def StartBlock_def Let_def FilterBlockBuilder_init_def kFilterBase_def
      kFilterBaseLg_def StartBlock_loop.simps GenerateFilter_def Slice_def example_policy_def)

lemma three_buckets_flushed:
  "flushed example_policy
     \<lparr>keys_' = [4], start_' = [0], result_' = [1, 2, 3], tmp_keys_' = [], filter_offsets_' = [0, 1]\<rparr> =
   \<lparr>keys_' = [], start_' = [], result_' = [1, 2, 3, 4], tmp_keys_' = [], filter_offsets_' = [0, 1, 3]\<rparr>"
  by (simp add: flushed_def GenerateFilter_def Let_def Slice_def example_policy_def)

lemma three_buckets_Finish:
  "fst (Finish example_policy
     \<lparr>keys_' = [4], start_' = [0], result_' = [1, 2, 3], tmp_keys_' = [], filter_offsets_' = [0, 1]\<rparr>) =
   [1, 2, 3, 4, 0, 0, 0, 0, 1, 0, 0, 0, 3, 0, 0, 0, 4, 0, 0, 0, 11]"
  unfolding Finish_output three_buckets_flushed by (simp add: EncodeFixed32_def)

lemma three_buckets_reader:
  "FilterBlockReader_init [1, 2, 3, 4, 0, 0, 0, 0, 1, 0, 0, 0, 3, 0, 0, 0, 4, 0, 0, 0, 11] =
     \<lparr>data_' = Some [1, 2, 3, 4, 0, 0, 0, 0, 1, 0, 0, 0, 3, 0, 0, 0, 4, 0, 0, 0, 11],
      offset_' = Some 4, num_' = 3, base_lg_' = 11\<rparr>"
  by (simp add: FilterBlockReader_init_def Let_def)

text \<open>Runs that only add keys.\<close>

lemma run_calls_AddKeys:
  "run_calls policy (map AddKey_call ks) b = Some (add_keys b ks)"
  by (induction ks arbitrary: b) (simp_all add: add_keys_def)

lemma add_keys_fields:
  "filter_offsets_' (add_keys b ks) = filter_offsets_' b"
  "result_' (add_keys b ks) = result_' b"
  "length (start_' (add_keys b ks)) = length (start_' b) + length ks"
  by (induction ks arbitrary: b) (simp_all add: add_keys_def AddKey_fields)

lemma block_offsets_AddKeys: "block_offsets (map AddKey_call ks) = []"
  by (induction ks) simp_all

lemma keys_until_close_AddKeys: "keys_until_close i (map AddKey_call ks) = length ks"
  by (induction ks) simp_all

lemma length_many_keys: "length many_keys = 2 ^ 31 - 1"
  by (simp add: many_keys_def)

text \<open>
  After \<open>2 ^ 31\<close> keys the policy is handed no key: with \<open>example_policy\<close> the filter is
  empty and the block is the one of a bucket without filter bytes.
\<close>

lemma many_keys_run:
  "run_calls example_policy ([] @ AddKey_call [7] # map AddKey_call many_keys) FilterBlockBuilder_init =
     Some (add_keys FilterBlockBuilder_init ([7] # many_keys))"
  using run_calls_AddKeys [of example_policy "[7] # many_keys" FilterBlockBuilder_init] by simp

lemma many_keys_flushed:
  "result_' (flushed example_policy (add_keys FilterBlockBuilder_init ([7] # many_keys))) = []"
  "filter_offsets_' (flushed example_policy (add_keys FilterBlockBuilder_init ([7] # many_keys))) = [0]"
proof -
  let ?b = "add_keys FilterBlockBuilder_init ([7] # many_keys)"
  have len: "length (start_' ?b) = 2 ^ 31"
    by (simp add: add_keys_fields length_many_keys FilterBlockBuilder_init_def)
  then have "start_' ?b \<noteq> []"
    by auto
  then have fl: "flushed example_policy ?b = GenerateFilter example_policy ?b"
    by (simp add: flushed_def)
  have r: "result_' ?b = []" and o: "filter_offsets_' ?b = []"
    by (simp_all add: add_keys_fields FilterBlockBuilder_init_def)
  show "result_' (flushed example_policy ?b) = []"
    unfolding fl GenerateFilter_key_count_wraps [OF len] r by (simp add: example_policy_def)
  show "filter_offsets_' (flushed example_policy ?b) = [0]"
    unfolding fl GenerateFilter_offsets r o by simp
qed

lemma many_keys_Finish:
  "fst (Finish example_policy (add_keys FilterBlockBuilder_init ([7] # many_keys))) =
     [0, 0, 0, 0, 0, 0, 0, 0, 11]"
  unfolding Finish_output many_keys_flushed by (simp add: EncodeFixed32_def)

section \<open>Block boundaries at 0 and 100000\<close>

text \<open>With no pending key the loop of \<open>StartBlock\<close> only repeats the current directory entry.\<close>

lemma StartBlock_loop_empty:
  "start_' b = [] \<Longrightarrow>
     StartBlock_loop policy filter_index b =
       b\<lparr>filter_offsets_' := filter_offsets_' b @
           replicate (filter_index - length (filter_offsets_' b)) (word_of_nat (length (result_' b)))\<rparr>"
proof (induction policy filter_index b rule: StartBlock_loop.induct)
  case (1 policy filter_index b)
  show ?case
  proof (cases "filter_index > length (filter_offsets_' b)")
    case True
    have g: "GenerateFilter policy b =
        b\<lparr>filter_offsets_' := filter_offsets_' b @ [word_of_nat (length (result_' b))]\<rparr>"
      using "1.prems" by (rule GenerateFilter_empty)
    have n: "filter_index - length (filter_offsets_' b) =
        Suc (filter_index - Suc (length (filter_offsets_' b)))"
      using True by simp
    have "StartBlock_loop policy filter_index b =
        StartBlock_loop policy filter_index (GenerateFilter policy b)"
      using True by (subst StartBlock_loop.simps) simp
    also have "\<dots> = (GenerateFilter policy b)\<lparr>filter_offsets_' := filter_offsets_' (GenerateFilter policy b) @
           replicate (filter_index - length (filter_offsets_' (GenerateFilter policy b)))
             (word_of_nat (length (result_' (GenerateFilter policy b))))\<rparr>"
      using "1.prems" by (intro "1.IH" [OF True]) (simp add: g)
    also have "\<dots> = b\<lparr>filter_offsets_' := filter_offsets_' b @
           replicate (filter_index - length (filter_offsets_' b)) (word_of_nat (length (result_' b)))\<rparr>"
      unfolding g n by simp
    finally show ?thesis .
  next
    case False
    then show ?thesis
      by (subst StartBlock_loop.simps) simp
  qed
qed

lemma StartBlock_loop_closes:
  assumes "length (filter_offsets_' b) < filter_index"
  shows "start_' (StartBlock_loop policy filter_index b) = []"
proof -
  have "StartBlock_loop policy filter_index b =
      StartBlock_loop policy filter_index (GenerateFilter policy b)"
    using assms by (subst StartBlock_loop.simps) simp
  then show ?thesis
    using StartBlock_loop_no_keys [of "GenerateFilter policy b" policy filter_index]
    by (simp add: GenerateFilter_start)
qed

lemma StartBlock_eq:
  "length (filter_offsets_' b) \<le> unat block_offset div 2048 \<Longrightarrow>
     StartBlock policy b block_offset = Some (StartBlock_loop policy (unat block_offset div 2048) b)"
  by (simp add: StartBlock_Some)

text \<open>A call sequence is its \<open>StartBlock\<close> calls with keys before, between and after.\<close>

lemma block_offsets_Nil:
  "block_offsets cs = [] \<Longrightarrow> \<exists>ks. cs = map AddKey_call ks"
proof (induction cs)
  case Nil
  then show ?case by simp
next
  case (Cons c cs)
  show ?case
  proof (cases c)
    case (AddKey_call key)
    with Cons obtain ks where "cs = map AddKey_call ks" by auto
    with AddKey_call have "c # cs = map AddKey_call (key # ks)" by simp
    then show ?thesis by (rule exI)
  next
    case (StartBlock_call block_offset)
    with Cons.prems show ?thesis by simp
  qed
qed

lemma block_offsets_Cons:
  "block_offsets cs = x # xs \<Longrightarrow>
     \<exists>ks cs'. cs = map AddKey_call ks @ StartBlock_call x # cs' \<and> block_offsets cs' = xs"
proof (induction cs)
  case Nil
  then show ?case by simp
next
  case (Cons c cs)
  show ?case
  proof (cases c)
    case (AddKey_call key)
    with Cons obtain ks cs' where "cs = map AddKey_call ks @ StartBlock_call x # cs'"
      "block_offsets cs' = xs" by auto
    with AddKey_call have "c # cs = map AddKey_call (key # ks) @ StartBlock_call x # cs'" by simp
    with \<open>block_offsets cs' = xs\<close> show ?thesis by (intro exI conjI)
  next
    case (StartBlock_call block_offset)
    with Cons.prems have "c # cs = map AddKey_call [] @ StartBlock_call x # cs" "block_offsets cs = xs"
      by simp_all
    then show ?thesis by (intro exI conjI)
  qed
qed

text \<open>
  Block boundaries at 0 and 100000 with any keys before, between and after: 48 entries
  are written and the keys of the last group are pending.
\<close>

lemma sparse_run_keys:
  "\<exists>b. run_calls policy
       (map AddKey_call ks0 @ StartBlock_call 0 # map AddKey_call ks1 @ StartBlock_call 100000 #
          map AddKey_call ks2) FilterBlockBuilder_init = Some b \<and>
     length (filter_offsets_' b) = 48 \<and> length (start_' b) = length ks2"
proof -
  define b0 where "b0 = add_keys FilterBlockBuilder_init ks0"
  define b1 where "b1 = add_keys b0 ks1"
  define b2 where "b2 = StartBlock_loop policy 48 b1"
  define b3 where "b3 = add_keys b2 ks2"
  have o0: "filter_offsets_' b0 = []"
    by (simp add: b0_def add_keys_fields FilterBlockBuilder_init_def)
  have s0: "StartBlock policy b0 0 = Some b0"
    by (simp add: StartBlock_Some o0 StartBlock_loop.simps)
  have o1: "filter_offsets_' b1 = []"
    by (simp add: b1_def add_keys_fields o0)
  have s1: "StartBlock policy b1 100000 = Some b2"
    by (simp add: StartBlock_Some o1 b2_def)
  have o2: "length (filter_offsets_' b2) = 48" and k2: "start_' b2 = []"
    by (simp_all add: b2_def StartBlock_loop_offsets_length StartBlock_loop_closes o1)
  have "run_calls policy
       (map AddKey_call ks0 @ StartBlock_call 0 # map AddKey_call ks1 @ StartBlock_call 100000 #
          map AddKey_call ks2) FilterBlockBuilder_init = Some b3"
    by (simp add: run_calls_append run_calls_AddKeys b0_def [symmetric] s0 b1_def [symmetric] s1
        b3_def)
  moreover have "length (filter_offsets_' b3) = 48" "length (start_' b3) = length ks2"
    by (simp_all add: b3_def add_keys_fields o2 k2)
  ultimately show ?thesis
    by blast
qed

lemma Finish_offsets_length:
  "length (filter_offsets_' (snd (Finish policy b))) =
     length (filter_offsets_' b) + (if start_' b = [] then 0 else 1)"
  by (simp add: Finish_offsets flushed_def GenerateFilter_offsets)

lemma sparse_run_no_keys:
  "run_calls policy [StartBlock_call 0, StartBlock_call 100000] FilterBlockBuilder_init =
     Some \<lparr>keys_' = [], start_' = [], result_' = [], tmp_keys_' = [],
            filter_offsets_' = replicate 48 0\<rparr>"
  by (simp add: StartBlock_eq StartBlock_loop_empty FilterBlockBuilder_init_def)

lemma sparse_run_three_keys:
  "run_calls example_policy
     [AddKey_call [1], StartBlock_call 0, AddKey_call [2], StartBlock_call 100000, AddKey_call [3]]
     FilterBlockBuilder_init =
   Some \<lparr>keys_' = [3], start_' = [0], result_' = [1, 2], tmp_keys_' = [],
          filter_offsets_' = 0 # replicate 47 2\<rparr>"
proof -
  let ?b1 = "\<lparr>keys_' = [1, 2], start_' = [0, 1], result_' = [], tmp_keys_' = [],
               filter_offsets_' = ([] :: u32 list)\<rparr>"
  have a: "run_calls example_policy [AddKey_call [1], StartBlock_call 0, AddKey_call [2]]
      FilterBlockBuilder_init = Some ?b1"
    by (simp add: AddKey_def StartBlock_eq Let_def FilterBlockBuilder_init_def StartBlock_loop.simps)
  have g: "GenerateFilter example_policy ?b1 =
      \<lparr>keys_' = [], start_' = [], result_' = [1, 2], tmp_keys_' = [], filter_offsets_' = [0]\<rparr>"
    by (simp add: GenerateFilter_def Let_def Slice_def example_policy_def)
  have "StartBlock_loop example_policy 48 ?b1 =
      StartBlock_loop example_policy 48 (GenerateFilter example_policy ?b1)"
    by (subst StartBlock_loop.simps) simp
  also have "\<dots> = \<lparr>keys_' = [], start_' = [], result_' = [1, 2], tmp_keys_' = [],
      filter_offsets_' = 0 # replicate 47 2\<rparr>"
    unfolding g by (simp add: StartBlock_loop_empty)
  finally have l: "StartBlock example_policy ?b1 100000 =
      Some \<lparr>keys_' = [], start_' = [], result_' = [1, 2], tmp_keys_' = [],
        filter_offsets_' = 0 # replicate 47 2\<rparr>"
    by (simp add: StartBlock_eq)
  have "run_calls example_policy
     ([AddKey_call [1], StartBlock_call 0, AddKey_call [2]] @ [StartBlock_call 100000, AddKey_call [3]])
     FilterBlockBuilder_init =
     run_calls example_policy [StartBlock_call 100000, AddKey_call [3]] ?b1"
    by (simp only: run_calls_append a option.case)
  also have "\<dots> = Some (AddKey \<lparr>keys_' = [], start_' = [], result_' = [1, 2], tmp_keys_' = [],
        filter_offsets_' = 0 # replicate 47 2\<rparr> [3])"
    by (simp only: run_calls.simps l option.case)
  also have "\<dots> = Some \<lparr>keys_' = [3], start_' = [0], result_' = [1, 2], tmp_keys_' = [],
          filter_offsets_' = 0 # replicate 47 2\<rparr>"
    by (simp add: AddKey_def Let_def)
  finally have "run_calls example_policy
     ([AddKey_call [1], StartBlock_call 0, AddKey_call [2]] @ [StartBlock_call 100000, AddKey_call [3]])
     FilterBlockBuilder_init =
   Some \<lparr>keys_' = [3], start_' = [0], result_' = [1, 2], tmp_keys_' = [],
          filter_offsets_' = 0 # replicate 47 2\<rparr>" .
  then show ?thesis by simp
qed

lemma sparse_three_keys_flushed:
  "flushed example_policy
     \<lparr>keys_' = [3], start_' = [0], result_' = [1, 2], tmp_keys_' = [],
      filter_offsets_' = 0 # replicate 47 2\<rparr> =
   \<lparr>keys_' = [], start_' = [], result_' = [1, 2, 3], tmp_keys_' = [],
    filter_offsets_' = (0 # replicate 47 2) @ [2]\<rparr>"
  by (simp add: flushed_def GenerateFilter_def Let_def Slice_def example_policy_def)

section \<open>The claims\<close>

subsection \<open>C1: no false negatives\<close>

text \<open>
  C1, amended. Let the policy have no false negatives and let the offsets of the
  \<^verbatim>\<open>StartBlock\<close> calls of a call sequence never decrease. Then no assertion fails. Let a
  key \<open>k\<close> be added when \<open>i\<close> directory entries have been written (bucket \<open>i\<close> is
  pending). If the filters that \<^verbatim>\<open>Finish\<close> leaves take fewer than \<open>2 ^ 32\<close> bytes, and the
  filter that receives \<open>k\<close> is made from fewer than \<open>2 ^ 31\<close> keys (the keys pending
  before \<open>k\<close>, \<open>k\<close> itself, and the keys added after \<open>k\<close> until bucket \<open>i\<close> is closed),
  then the reader of the finished block answers true to \<^verbatim>\<open>KeyMayMatch(block_offset, k)\<close>
  for every block offset whose shifted value is \<open>i\<close>. The two bounds are what the
  32-bit directory words and the \<^verbatim>\<open>int\<close> key count handed to the policy can hold.
\<close>

theorem no_false_negatives_round_trip:
  assumes nofn: "no_false_negatives policy"
    and sorted: "sorted (block_offsets (cs1 @ AddKey_call k # cs2))"
  shows "\<exists>b1 b. run_calls policy cs1 FilterBlockBuilder_init = Some b1 \<and>
     run_calls policy (cs1 @ AddKey_call k # cs2) FilterBlockBuilder_init = Some b \<and>
     (length (result_' (flushed policy b)) < 2 ^ 32 \<and>
      Suc (length (start_' b1)) + keys_until_close (length (filter_offsets_' b1)) cs2 < 2 ^ 31 \<longrightarrow>
       (\<forall>block_offset.
          unat (shr64 block_offset (base_lg_' (FilterBlockReader_init (fst (Finish policy b)))))
            = length (filter_offsets_' b1) \<longrightarrow>
          fst (KeyMayMatch policy (FilterBlockReader_init (fst (Finish policy b))) block_offset k)
            = Some True))"
proof -
  obtain b where b: "run_calls policy (cs1 @ AddKey_call k # cs2) FilterBlockBuilder_init = Some b"
    using run_calls_sorted [OF sorted, of FilterBlockBuilder_init policy]
    by (auto simp: FilterBlockBuilder_init_def)
  then obtain b1 where b1: "run_calls policy cs1 FilterBlockBuilder_init = Some b1"
    and r2: "run_calls policy cs2 (AddKey b1 k) = Some b"
    by (auto simp: run_calls_append split: option.splits)
  have "fst (KeyMayMatch policy (FilterBlockReader_init (fst (Finish policy b))) block_offset k)
            = Some True"
    if small_fl: "length (result_' (flushed policy b)) < 2 ^ 32"
      and keys: "Suc (length (start_' b1)) + keys_until_close (length (filter_offsets_' b1)) cs2 < 2 ^ 31"
      and idx: "unat (shr64 block_offset (base_lg_' (FilterBlockReader_init (fst (Finish policy b)))))
            = length (filter_offsets_' b1)"
    for block_offset
  proof -
    have small_b: "length (result_' b) < 2 ^ 32"
      using small_fl flushed_result [of policy b] by auto
    then have small_b1: "length (result_' b1) < 2 ^ 32"
      using run_calls_result_prefix [OF r2] by (auto simp: AddKey_fields)
    have inv1: "builder_inv b1"
      using b1 small_b1 builder_inv_init by (rule run_calls_inv)
    then obtain ks where ks: "pending b1 ks"
      by (auto simp: builder_inv_def)
    have cov1: "covered policy (AddKey b1 k) (length (filter_offsets_' b1)) k"
      using pending_AddKey [OF ks, of k] by (auto simp: covered_def AddKey_fields)
    have k2: "length (filter_offsets_' (AddKey b1 k)) = length (filter_offsets_' b1) \<longrightarrow>
        length (start_' (AddKey b1 k)) + keys_until_close (length (filter_offsets_' b1)) cs2 < 2 ^ 31"
      using keys by (simp add: AddKey_fields)
    have fin: "builder_inv b \<and> covered policy b (length (filter_offsets_' b1)) k \<and>
        (length (filter_offsets_' b) = length (filter_offsets_' b1) \<longrightarrow> length (start_' b) < 2 ^ 31)"
      using nofn r2 small_b builder_inv_AddKey [OF inv1] cov1 k2 by (rule run_calls_covered)
    then have c: "length (filter_offsets_' b1) < length (filter_offsets_' (flushed policy b))"
      "policy_KeyMayMatch policy k (filter_bytes (flushed policy b) (length (filter_offsets_' b1)))"
      using covered_flushed [OF nofn _ _ _ small_fl, of "length (filter_offsets_' b1)" k] by blast+
    have ok: "offsets_ok (flushed policy b)"
      using fin small_fl builder_inv_flushed by (auto simp: builder_inv_def)
    from idx have idx11: "unat (drop_bit 11 block_offset) = length (filter_offsets_' b1)"
      by (simp add: Finish_reader [OF small_fl] shr64_11)
    show ?thesis
      using KeyMayMatch_Finish [OF ok small_fl, of block_offset k] c idx11 by simp
  qed
  with b b1 show ?thesis by blast
qed

text \<open>
  The theorem at a concrete run: key 1, a block boundary at 2048, the keys 2 and 3, a
  block boundary at 4096 and the key 4; the reader is asked for the key 2 in bucket 1,
  whose filter is made from two keys.
\<close>

theorem no_false_negatives_round_trip_witness:
  "no_false_negatives example_policy \<and>
   sorted (block_offsets ([AddKey_call [1], StartBlock_call 2048] @ AddKey_call [2] #
     [AddKey_call [3], StartBlock_call 4096, AddKey_call [4]])) \<and>
   run_calls example_policy [AddKey_call [1], StartBlock_call 2048] FilterBlockBuilder_init =
     Some \<lparr>keys_' = [], start_' = [], result_' = [1], tmp_keys_' = [], filter_offsets_' = [0]\<rparr> \<and>
   run_calls example_policy
     ([AddKey_call [1], StartBlock_call 2048] @ AddKey_call [2] #
        [AddKey_call [3], StartBlock_call 4096, AddKey_call [4]]) FilterBlockBuilder_init =
     Some \<lparr>keys_' = [4], start_' = [0], result_' = [1, 2, 3], tmp_keys_' = [],
            filter_offsets_' = [0, 1]\<rparr> \<and>
   length (result_' (flushed example_policy
     \<lparr>keys_' = [4], start_' = [0], result_' = [1, 2, 3], tmp_keys_' = [],
      filter_offsets_' = [0, 1]\<rparr>)) < 2 ^ 32 \<and>
   Suc (length (start_' \<lparr>keys_' = [], start_' = [], result_' = [1], tmp_keys_' = [],
                        filter_offsets_' = [0 :: u32]\<rparr>)) +
     keys_until_close 1 [AddKey_call [3], StartBlock_call 4096, AddKey_call [4]] = 2 \<and>
   fst (Finish example_policy
     \<lparr>keys_' = [4], start_' = [0], result_' = [1, 2, 3], tmp_keys_' = [],
      filter_offsets_' = [0, 1]\<rparr>) =
     [1, 2, 3, 4, 0, 0, 0, 0, 1, 0, 0, 0, 3, 0, 0, 0, 4, 0, 0, 0, 11] \<and>
   unat (shr64 (2048 :: u64)
     (base_lg_' (FilterBlockReader_init
        [1, 2, 3, 4, 0, 0, 0, 0, 1, 0, 0, 0, 3, 0, 0, 0, 4, 0, 0, 0, 11]))) = 1 \<and>
   fst (KeyMayMatch example_policy
          (FilterBlockReader_init [1, 2, 3, 4, 0, 0, 0, 0, 1, 0, 0, 0, 3, 0, 0, 0, 4, 0, 0, 0, 11])
          2048 [2]) = Some True"
proof -
  let ?cs1 = "[AddKey_call [1], StartBlock_call 2048]"
  let ?cs2 = "[AddKey_call [3], StartBlock_call 4096, AddKey_call [4]]"
  let ?b1 = "\<lparr>keys_' = [], start_' = [], result_' = [1], tmp_keys_' = [],
               filter_offsets_' = [0 :: u32]\<rparr>"
  let ?b = "\<lparr>keys_' = [4], start_' = [0], result_' = [1, 2, 3], tmp_keys_' = [],
              filter_offsets_' = [0, 1 :: u32]\<rparr>"
  let ?out = "[1, 2, 3, 4, 0, 0, 0, 0, 1, 0, 0, 0, 3, 0, 0, 0, 4, 0, 0, 0, 11] :: bytes"
  have h1: "no_false_negatives example_policy"
    by (rule example_no_false_negatives)
  have h2: "sorted (block_offsets (?cs1 @ AddKey_call [2] # ?cs2))"
    by simp
  have small: "length (result_' (flushed example_policy ?b)) < 2 ^ 32"
    unfolding three_buckets_flushed by simp
  have keys: "Suc (length (start_' ?b1)) + keys_until_close 1 ?cs2 = 2"
    by (simp add: kFilterBase_eq)
  have idx: "unat (shr64 (2048 :: u64) (base_lg_' (FilterBlockReader_init ?out))) = 1"
    by (simp add: three_buckets_reader shr64_def drop_bit_eq_div)
  from no_false_negatives_round_trip [OF h1 h2]
  obtain b1 b where r1: "run_calls example_policy ?cs1 FilterBlockBuilder_init = Some b1"
    and r: "run_calls example_policy (?cs1 @ AddKey_call [2] # ?cs2) FilterBlockBuilder_init = Some b"
    and q: "length (result_' (flushed example_policy b)) < 2 ^ 32 \<and>
      Suc (length (start_' b1)) + keys_until_close (length (filter_offsets_' b1)) ?cs2 < 2 ^ 31 \<longrightarrow>
       (\<forall>block_offset.
          unat (shr64 block_offset (base_lg_' (FilterBlockReader_init (fst (Finish example_policy b)))))
            = length (filter_offsets_' b1) \<longrightarrow>
          fst (KeyMayMatch example_policy (FilterBlockReader_init (fst (Finish example_policy b)))
                 block_offset [2]) = Some True)"
    by blast
  from r1 have b1: "b1 = ?b1"
    by (simp only: example_run_prefix option.inject)
  from r have b: "b = ?b"
    by (simp only: three_buckets_run option.inject)
  have "fst (KeyMayMatch example_policy (FilterBlockReader_init ?out) 2048 [2]) = Some True"
    using q small keys idx unfolding b b1 three_buckets_Finish by simp
  with h1 h2 small keys idx show ?thesis
    unfolding three_buckets_Finish using example_run_prefix three_buckets_run by simp
qed

text \<open>
  C1 as stated fails in two ways, each with a policy that has no false negative. First,
  one key whose filter takes \<open>2 ^ 32\<close> bytes: the directory start is stored as 0 and the
  reader answers false for the key in its bucket. Second, \<open>2 ^ 31\<close> keys in one bucket:
  the count handed to the policy is negative, the policy sees no key and writes an
  empty filter, and the reader answers false for the first key.
\<close>

theorem no_false_negatives_counterexample:
  "no_false_negatives huge_policy \<and>
   sorted (block_offsets ([] @ AddKey_call [7] # [])) \<and>
   run_calls huge_policy [] FilterBlockBuilder_init = Some FilterBlockBuilder_init \<and>
   run_calls huge_policy ([] @ AddKey_call [7] # []) FilterBlockBuilder_init =
     Some (AddKey FilterBlockBuilder_init [7]) \<and>
   length (result_' (flushed huge_policy (AddKey FilterBlockBuilder_init [7]))) = 2 ^ 32 \<and>
   Suc (length (start_' FilterBlockBuilder_init)) +
     keys_until_close (length (filter_offsets_' FilterBlockBuilder_init)) [] = 1 \<and>
   unat (shr64 (0 :: u64)
           (base_lg_' (FilterBlockReader_init (fst (Finish huge_policy (AddKey FilterBlockBuilder_init [7]))))))
     = length (filter_offsets_' FilterBlockBuilder_init) \<and>
   fst (KeyMayMatch huge_policy
          (FilterBlockReader_init (fst (Finish huge_policy (AddKey FilterBlockBuilder_init [7])))) 0 [7]) =
     Some False \<and>
   no_false_negatives example_policy \<and>
   sorted (block_offsets ([] @ AddKey_call [7] # map AddKey_call many_keys)) \<and>
   run_calls example_policy [] FilterBlockBuilder_init = Some FilterBlockBuilder_init \<and>
   run_calls example_policy ([] @ AddKey_call [7] # map AddKey_call many_keys) FilterBlockBuilder_init =
     Some (add_keys FilterBlockBuilder_init ([7] # many_keys)) \<and>
   length (result_' (flushed example_policy (add_keys FilterBlockBuilder_init ([7] # many_keys)))) = 0 \<and>
   Suc (length (start_' FilterBlockBuilder_init)) +
     keys_until_close (length (filter_offsets_' FilterBlockBuilder_init)) (map AddKey_call many_keys)
     = 2 ^ 31 \<and>
   unat (shr64 (0 :: u64)
           (base_lg_' (FilterBlockReader_init
              (fst (Finish example_policy (add_keys FilterBlockBuilder_init ([7] # many_keys)))))))
     = length (filter_offsets_' FilterBlockBuilder_init) \<and>
   fst (KeyMayMatch example_policy
          (FilterBlockReader_init
             (fst (Finish example_policy (add_keys FilterBlockBuilder_init ([7] # many_keys))))) 0 [7]) =
     Some False"
proof -
  have a1: "fst (KeyMayMatch huge_policy
          (FilterBlockReader_init (fst (Finish huge_policy (AddKey FilterBlockBuilder_init [7])))) 0 [7]) =
     Some False"
    unfolding huge_reader huge_query by simp
  have a2: "unat (shr64 (0 :: u64)
           (base_lg_' (FilterBlockReader_init (fst (Finish huge_policy (AddKey FilterBlockBuilder_init [7]))))))
     = length (filter_offsets_' FilterBlockBuilder_init)"
    unfolding huge_reader by (simp add: FilterBlockBuilder_init_def shr64_def)
  have a3: "length (result_' (flushed huge_policy (AddKey FilterBlockBuilder_init [7]))) = 2 ^ 32"
    unfolding huge_flushed by (simp add: length_huge_filter)
  have a4: "Suc (length (start_' FilterBlockBuilder_init)) +
     keys_until_close (length (filter_offsets_' FilterBlockBuilder_init)) [] = 1"
    by (simp add: FilterBlockBuilder_init_def)
  have b1: "fst (KeyMayMatch example_policy
          (FilterBlockReader_init
             (fst (Finish example_policy (add_keys FilterBlockBuilder_init ([7] # many_keys))))) 0 [7]) =
     Some False"
    unfolding many_keys_Finish reader_empty_bucket
    by (simp add: KeyMayMatch_def read_fixed32_def Let_def Slice_def example_policy_def shr64_def)
  have b2: "unat (shr64 (0 :: u64)
           (base_lg_' (FilterBlockReader_init
              (fst (Finish example_policy (add_keys FilterBlockBuilder_init ([7] # many_keys)))))))
     = length (filter_offsets_' FilterBlockBuilder_init)"
    unfolding many_keys_Finish reader_empty_bucket
    by (simp add: FilterBlockBuilder_init_def shr64_def)
  have b3: "length (result_' (flushed example_policy (add_keys FilterBlockBuilder_init ([7] # many_keys)))) = 0"
    by (simp add: many_keys_flushed)
  have b4: "Suc (length (start_' FilterBlockBuilder_init)) +
     keys_until_close (length (filter_offsets_' FilterBlockBuilder_init)) (map AddKey_call many_keys)
     = 2 ^ 31"
    by (simp add: FilterBlockBuilder_init_def keys_until_close_AddKeys length_many_keys)
  have b5: "sorted (block_offsets ([] @ AddKey_call [7] # map AddKey_call many_keys))"
    by (simp add: block_offsets_AddKeys)
  show ?thesis
    using a1 a2 a3 a4 b1 b2 b3 b4 b5 many_keys_run huge_no_false_negatives example_no_false_negatives
    by simp
qed

subsection \<open>C2: a malformed footer\<close>

text \<open>
  C2. For every buffer shorter than 5 bytes, and for every buffer whose directory start
  (the 4-byte little-endian word at length - 5) is greater than length - 5, the
  constructor yields the degraded reader: null pointers and bucket count 0. On that
  reader \<^verbatim>\<open>KeyMayMatch\<close> answers true for every block offset and every key, and leaves the
  reader as it is.
\<close>

theorem fail_open_malformed_footer:
  assumes "length contents < 5 \<or> length contents - 5 < directory_start contents"
  shows "data_' (FilterBlockReader_init contents) = None \<and>
     num_' (FilterBlockReader_init contents) = 0 \<and>
     KeyMayMatch policy (FilterBlockReader_init contents) block_offset key =
       (Some True, FilterBlockReader_init contents)"
  using FilterBlockReader_init_degraded [OF assms]
  by (simp add: KeyMayMatch_def Let_def)

text \<open>
  The theorem at a buffer of 5 bytes whose directory start is 1, and at a buffer of 3
  bytes.
\<close>

theorem fail_open_malformed_footer_witness:
  "length ([1, 0, 0, 0, 11] :: bytes) - 5 < directory_start [1, 0, 0, 0, 11] \<and>
   num_' (FilterBlockReader_init [1, 0, 0, 0, 11]) = 0 \<and>
   KeyMayMatch example_policy (FilterBlockReader_init [1, 0, 0, 0, 11]) 4096 [7] =
     (Some True, FilterBlockReader_init [1, 0, 0, 0, 11]) \<and>
   length ([3, 0, 11] :: bytes) < 5 \<and>
   num_' (FilterBlockReader_init [3, 0, 11]) = 0 \<and>
   KeyMayMatch example_policy (FilterBlockReader_init [3, 0, 11]) 0 [7] =
     (Some True, FilterBlockReader_init [3, 0, 11])"
proof -
  have a: "length ([1, 0, 0, 0, 11] :: bytes) - 5 < directory_start [1, 0, 0, 0, 11]"
    by (simp add: directory_start_def)
  have b: "length ([3, 0, 11] :: bytes) < 5"
    by simp
  show ?thesis
    using a b
      fail_open_malformed_footer [of "[1, 0, 0, 0, 11]" example_policy 4096 "[7]"]
      fail_open_malformed_footer [of "[3, 0, 11]" example_policy 0 "[7]"]
    by simp
qed

subsection \<open>C3: buckets with the empty marker\<close>

text \<open>
  C3, amended. For every reader in the valid state and every query whose bucket index
  is below the bucket count, both directory words of the bucket are read inside the
  buffer, and if they are equal (\<open>start = limit\<close>, the empty marker) then
  \<^verbatim>\<open>KeyMayMatch\<close> answers false when \<open>limit\<close> lies beyond the directory position, and
  otherwise answers what the policy answers for the key on the empty filter: the first
  branch of the source hands the empty slice to the policy before the branch for empty
  filters is reached. So the answer is false for every policy that matches no key
  against the empty filter.
\<close>

theorem empty_marker_buckets:
  assumes "data_' (FilterBlockReader_init contents) = Some d"
    and "offset_' (FilterBlockReader_init contents) = Some off"
    and "unat (shr64 block_offset (base_lg_' (FilterBlockReader_init contents))) = i"
    and "i < num_' (FilterBlockReader_init contents)"
  shows "\<exists>start limit.
     read_fixed32 d (off + i * 4) = Some start \<and> read_fixed32 d (off + i * 4 + 4) = Some limit \<and>
     (start = limit \<longrightarrow>
        fst (KeyMayMatch policy (FilterBlockReader_init contents) block_offset key) =
          Some (unat limit \<le> off \<and> policy_KeyMayMatch policy key []))"
proof -
  have off: "off = directory_start contents"
    using FilterBlockReader_init_valid(4) [OF assms(1)] assms(2) by simp
  show ?thesis
    using valid_reads [OF assms(1,4)] KeyMayMatch_valid [OF assms(1,3,4), of policy key]
    by (auto simp: off Slice_def)
qed

text \<open>
  The theorem at the block of one bucket with no filter bytes, asked for the key 7, and
  at a block of two empty buckets whose shift byte is 139: the byte is sign-extended,
  the shift uses its low six bits, which are 11, and the block offset 2048 selects
  bucket 1.
\<close>

theorem empty_marker_buckets_witness:
  "data_' (FilterBlockReader_init [0, 0, 0, 0, 0, 0, 0, 0, 11]) = Some [0, 0, 0, 0, 0, 0, 0, 0, 11] \<and>
   offset_' (FilterBlockReader_init [0, 0, 0, 0, 0, 0, 0, 0, 11]) = Some 0 \<and>
   unat (shr64 (100 :: u64) (base_lg_' (FilterBlockReader_init [0, 0, 0, 0, 0, 0, 0, 0, 11]))) = 0 \<and>
   0 < num_' (FilterBlockReader_init [0, 0, 0, 0, 0, 0, 0, 0, 11]) \<and>
   read_fixed32 [0, 0, 0, 0, 0, 0, 0, 0, 11] (0 + 0 * 4) = Some 0 \<and>
   read_fixed32 [0, 0, 0, 0, 0, 0, 0, 0, 11] (0 + 0 * 4 + 4) = Some 0 \<and>
   fst (KeyMayMatch example_policy (FilterBlockReader_init [0, 0, 0, 0, 0, 0, 0, 0, 11]) 100 [7]) =
     Some False \<and>
   data_' (FilterBlockReader_init [0, 0, 0, 0, 0, 0, 0, 0, 0, 0, 0, 0, 139]) =
     Some [0, 0, 0, 0, 0, 0, 0, 0, 0, 0, 0, 0, 139] \<and>
   offset_' (FilterBlockReader_init [0, 0, 0, 0, 0, 0, 0, 0, 0, 0, 0, 0, 139]) = Some 0 \<and>
   base_lg_' (FilterBlockReader_init [0, 0, 0, 0, 0, 0, 0, 0, 0, 0, 0, 0, 139]) = 18446744073709551499 \<and>
   unat (shr64 (2048 :: u64)
     (base_lg_' (FilterBlockReader_init [0, 0, 0, 0, 0, 0, 0, 0, 0, 0, 0, 0, 139]))) = 1 \<and>
   1 < num_' (FilterBlockReader_init [0, 0, 0, 0, 0, 0, 0, 0, 0, 0, 0, 0, 139]) \<and>
   read_fixed32 [0, 0, 0, 0, 0, 0, 0, 0, 0, 0, 0, 0, 139] (0 + 1 * 4) = Some 0 \<and>
   read_fixed32 [0, 0, 0, 0, 0, 0, 0, 0, 0, 0, 0, 0, 139] (0 + 1 * 4 + 4) = Some 0 \<and>
   fst (KeyMayMatch example_policy
          (FilterBlockReader_init [0, 0, 0, 0, 0, 0, 0, 0, 0, 0, 0, 0, 139]) 2048 [7]) = Some False"
proof -
  let ?c = "[0, 0, 0, 0, 0, 0, 0, 0, 11] :: bytes"
  let ?d = "[0, 0, 0, 0, 0, 0, 0, 0, 0, 0, 0, 0, 139] :: bytes"
  have h1: "data_' (FilterBlockReader_init ?c) = Some ?c"
    and h2: "offset_' (FilterBlockReader_init ?c) = Some 0"
    and h3: "unat (shr64 (100 :: u64) (base_lg_' (FilterBlockReader_init ?c))) = 0"
    and h4: "0 < num_' (FilterBlockReader_init ?c)"
    by (simp_all add: reader_empty_bucket shr64_def drop_bit_eq_div)
  have r: "read_fixed32 ?c (0 + 0 * 4) = Some 0" "read_fixed32 ?c (0 + 0 * 4 + 4) = Some 0"
    by (simp_all add: read_fixed32_def)
  from empty_marker_buckets [OF h1 h2 h3 h4, of example_policy "[7]"] r
  have a: "fst (KeyMayMatch example_policy (FilterBlockReader_init ?c) 100 [7]) = Some False"
    by (auto simp: example_policy_def)
  have g1: "data_' (FilterBlockReader_init ?d) = Some ?d"
    and g2: "offset_' (FilterBlockReader_init ?d) = Some 0"
    and g3: "unat (shr64 (2048 :: u64) (base_lg_' (FilterBlockReader_init ?d))) = 1"
    and g4: "1 < num_' (FilterBlockReader_init ?d)"
    and g5: "base_lg_' (FilterBlockReader_init ?d) = 18446744073709551499"
    by (simp_all add: reader_shift_139 shr64_def drop_bit_eq_div)
  have q: "read_fixed32 ?d (0 + 1 * 4) = Some 0" "read_fixed32 ?d (0 + 1 * 4 + 4) = Some 0"
    by (simp_all add: read_fixed32_def)
  from empty_marker_buckets [OF g1 g2 g3 g4, of example_policy "[7]"] q
  have b: "fst (KeyMayMatch example_policy (FilterBlockReader_init ?d) 2048 [7]) = Some False"
    by (auto simp: example_policy_def)
  from h1 h2 h3 h4 r a g1 g2 g3 g4 g5 q b show ?thesis
    by simp
qed

text \<open>
  C3 as stated fails: the empty key is added, the policy writes an empty filter for
  it, the block has one bucket with \<open>start = limit = 0\<close>, and the reader answers true
  for the empty key, as the absence of false negatives demands.
\<close>

theorem empty_marker_buckets_counterexample:
  "fst (Finish example_policy (AddKey FilterBlockBuilder_init [])) = [0, 0, 0, 0, 0, 0, 0, 0, 11] \<and>
   data_' (FilterBlockReader_init [0, 0, 0, 0, 0, 0, 0, 0, 11]) = Some [0, 0, 0, 0, 0, 0, 0, 0, 11] \<and>
   offset_' (FilterBlockReader_init [0, 0, 0, 0, 0, 0, 0, 0, 11]) = Some 0 \<and>
   unat (shr64 (0 :: u64) (base_lg_' (FilterBlockReader_init [0, 0, 0, 0, 0, 0, 0, 0, 11]))) = 0 \<and>
   0 < num_' (FilterBlockReader_init [0, 0, 0, 0, 0, 0, 0, 0, 11]) \<and>
   read_fixed32 [0, 0, 0, 0, 0, 0, 0, 0, 11] (0 + 0 * 4) = Some 0 \<and>
   read_fixed32 [0, 0, 0, 0, 0, 0, 0, 0, 11] (0 + 0 * 4 + 4) = Some 0 \<and>
   fst (KeyMayMatch example_policy (FilterBlockReader_init [0, 0, 0, 0, 0, 0, 0, 0, 11]) 0 []) =
     Some True"
  by (simp add: Finish_empty_key reader_empty_bucket shr64_def)
     (simp add: KeyMayMatch_def read_fixed32_def Let_def Slice_def example_policy_def shr64_def)

subsection \<open>C4: directory words out of range\<close>

text \<open>
  C4, amended. For every reader in the valid state and every query whose bucket index
  is below the bucket count, both directory words of the bucket are read inside the
  buffer, and if they do not satisfy \<open>start \<le> limit \<le> directory position\<close> then
  \<^verbatim>\<open>KeyMayMatch\<close> answers true when \<open>start \<noteq> limit\<close> and false when \<open>start = limit\<close>: the
  branch for empty filters of the source answers false for two equal words that lie
  beyond the directory position.
\<close>

theorem fail_open_corrupt_bounds:
  assumes "data_' (FilterBlockReader_init contents) = Some d"
    and "offset_' (FilterBlockReader_init contents) = Some off"
    and "unat (shr64 block_offset (base_lg_' (FilterBlockReader_init contents))) = i"
    and "i < num_' (FilterBlockReader_init contents)"
  shows "\<exists>start limit.
     read_fixed32 d (off + i * 4) = Some start \<and> read_fixed32 d (off + i * 4 + 4) = Some limit \<and>
     (\<not> (start \<le> limit \<and> unat limit \<le> off) \<longrightarrow>
        fst (KeyMayMatch policy (FilterBlockReader_init contents) block_offset key) =
          Some (start \<noteq> limit))"
proof -
  have off: "off = directory_start contents"
    using FilterBlockReader_init_valid(4) [OF assms(1)] assms(2) by simp
  show ?thesis
    using valid_reads [OF assms(1,4)] KeyMayMatch_valid [OF assms(1,3,4), of policy key]
    by (auto simp: off)
qed

text \<open>
  The theorem at a block whose first two words are 5 and 9, beyond the directory at 0,
  and at a block with the shift byte 64: the shift uses the low six bits of the count,
  which are 0, so the block offset 1 selects bucket 1, whose words are 9 and 9.
\<close>

theorem fail_open_corrupt_bounds_witness:
  "data_' (FilterBlockReader_init [5, 0, 0, 0, 9, 0, 0, 0, 0, 0, 0, 0, 11]) =
     Some [5, 0, 0, 0, 9, 0, 0, 0, 0, 0, 0, 0, 11] \<and>
   offset_' (FilterBlockReader_init [5, 0, 0, 0, 9, 0, 0, 0, 0, 0, 0, 0, 11]) = Some 0 \<and>
   unat (shr64 (0 :: u64) (base_lg_' (FilterBlockReader_init [5, 0, 0, 0, 9, 0, 0, 0, 0, 0, 0, 0, 11]))) = 0 \<and>
   0 < num_' (FilterBlockReader_init [5, 0, 0, 0, 9, 0, 0, 0, 0, 0, 0, 0, 11]) \<and>
   read_fixed32 [5, 0, 0, 0, 9, 0, 0, 0, 0, 0, 0, 0, 11] (0 + 0 * 4) = Some 5 \<and>
   read_fixed32 [5, 0, 0, 0, 9, 0, 0, 0, 0, 0, 0, 0, 11] (0 + 0 * 4 + 4) = Some 9 \<and>
   \<not> ((5 :: u32) \<le> 9 \<and> unat (9 :: u32) \<le> 0) \<and>
   fst (KeyMayMatch example_policy (FilterBlockReader_init [5, 0, 0, 0, 9, 0, 0, 0, 0, 0, 0, 0, 11]) 0 [7]) =
     Some True \<and>
   data_' (FilterBlockReader_init [5, 0, 0, 0, 9, 0, 0, 0, 9, 0, 0, 0, 0, 0, 0, 0, 64]) =
     Some [5, 0, 0, 0, 9, 0, 0, 0, 9, 0, 0, 0, 0, 0, 0, 0, 64] \<and>
   offset_' (FilterBlockReader_init [5, 0, 0, 0, 9, 0, 0, 0, 9, 0, 0, 0, 0, 0, 0, 0, 64]) = Some 0 \<and>
   unat (shr64 (1 :: u64)
     (base_lg_' (FilterBlockReader_init [5, 0, 0, 0, 9, 0, 0, 0, 9, 0, 0, 0, 0, 0, 0, 0, 64]))) = 1 \<and>
   1 < num_' (FilterBlockReader_init [5, 0, 0, 0, 9, 0, 0, 0, 9, 0, 0, 0, 0, 0, 0, 0, 64]) \<and>
   read_fixed32 [5, 0, 0, 0, 9, 0, 0, 0, 9, 0, 0, 0, 0, 0, 0, 0, 64] (0 + 1 * 4) = Some 9 \<and>
   read_fixed32 [5, 0, 0, 0, 9, 0, 0, 0, 9, 0, 0, 0, 0, 0, 0, 0, 64] (0 + 1 * 4 + 4) = Some 9 \<and>
   \<not> ((9 :: u32) \<le> 9 \<and> unat (9 :: u32) \<le> 0) \<and>
   fst (KeyMayMatch example_policy
          (FilterBlockReader_init [5, 0, 0, 0, 9, 0, 0, 0, 9, 0, 0, 0, 0, 0, 0, 0, 64]) 1 [7]) = Some False"
proof -
  let ?c = "[5, 0, 0, 0, 9, 0, 0, 0, 0, 0, 0, 0, 11] :: bytes"
  let ?d = "[5, 0, 0, 0, 9, 0, 0, 0, 9, 0, 0, 0, 0, 0, 0, 0, 64] :: bytes"
  have h1: "data_' (FilterBlockReader_init ?c) = Some ?c"
    and h2: "offset_' (FilterBlockReader_init ?c) = Some 0"
    and h3: "unat (shr64 (0 :: u64) (base_lg_' (FilterBlockReader_init ?c))) = 0"
    and h4: "0 < num_' (FilterBlockReader_init ?c)"
    by (simp_all add: reader_two_words shr64_def)
  have r: "read_fixed32 ?c (0 + 0 * 4) = Some 5" "read_fixed32 ?c (0 + 0 * 4 + 4) = Some 9"
    by (simp_all add: read_fixed32_def)
  from fail_open_corrupt_bounds [OF h1 h2 h3 h4, of example_policy "[7]"] r
  have a: "fst (KeyMayMatch example_policy (FilterBlockReader_init ?c) 0 [7]) = Some True"
    by auto
  have g1: "data_' (FilterBlockReader_init ?d) = Some ?d"
    and g2: "offset_' (FilterBlockReader_init ?d) = Some 0"
    and g3: "unat (shr64 (1 :: u64) (base_lg_' (FilterBlockReader_init ?d))) = 1"
    and g4: "1 < num_' (FilterBlockReader_init ?d)"
    by (simp_all add: reader_shift_64 shr64_def)
  have q: "read_fixed32 ?d (0 + 1 * 4) = Some 9" "read_fixed32 ?d (0 + 1 * 4 + 4) = Some 9"
    by (simp_all add: read_fixed32_def)
  from fail_open_corrupt_bounds [OF g1 g2 g3 g4, of example_policy "[7]"] q
  have b: "fst (KeyMayMatch example_policy (FilterBlockReader_init ?d) 1 [7]) = Some False"
    by auto
  from h1 h2 h3 h4 r a g1 g2 g3 g4 q b show ?thesis
    by simp
qed

text \<open>
  C4 as stated fails: the first two words are both 5, beyond the directory at 0, and
  the reader answers false.
\<close>

theorem fail_open_corrupt_bounds_counterexample:
  "data_' (FilterBlockReader_init [5, 0, 0, 0, 5, 0, 0, 0, 0, 0, 0, 0, 11]) =
     Some [5, 0, 0, 0, 5, 0, 0, 0, 0, 0, 0, 0, 11] \<and>
   offset_' (FilterBlockReader_init [5, 0, 0, 0, 5, 0, 0, 0, 0, 0, 0, 0, 11]) = Some 0 \<and>
   unat (shr64 (0 :: u64) (base_lg_' (FilterBlockReader_init [5, 0, 0, 0, 5, 0, 0, 0, 0, 0, 0, 0, 11]))) = 0 \<and>
   0 < num_' (FilterBlockReader_init [5, 0, 0, 0, 5, 0, 0, 0, 0, 0, 0, 0, 11]) \<and>
   read_fixed32 [5, 0, 0, 0, 5, 0, 0, 0, 0, 0, 0, 0, 11] (0 + 0 * 4) = Some 5 \<and>
   read_fixed32 [5, 0, 0, 0, 5, 0, 0, 0, 0, 0, 0, 0, 11] (0 + 0 * 4 + 4) = Some 5 \<and>
   \<not> ((5 :: u32) \<le> 5 \<and> unat (5 :: u32) \<le> 0) \<and>
   fst (KeyMayMatch example_policy (FilterBlockReader_init [5, 0, 0, 0, 5, 0, 0, 0, 0, 0, 0, 0, 11]) 0 [7]) =
     Some False"
  by (simp add: reader_two_words shr64_def)
     (simp add: KeyMayMatch_def read_fixed32_def Let_def shr64_def)

subsection \<open>C5: sparse blocks\<close>

text \<open>
  C5, amended. For every call sequence whose \<^verbatim>\<open>StartBlock\<close> calls are \<^verbatim>\<open>StartBlock(0)\<close> and
  then \<^verbatim>\<open>StartBlock(100000)\<close>, with keys added anywhere, no assertion fails, and after
  \<^verbatim>\<open>Finish\<close> the number of directory entries is \<open>100000 div 2048\<close> plus one when the last
  call before \<^verbatim>\<open>Finish\<close> adds a key (a key is pending for the last block), and
  \<open>100000 div 2048\<close> when it does not. The bucket count of the reader is that number
  when the filters take fewer than \<open>2 ^ 32\<close> bytes.
\<close>

theorem sparse_block_bucket_count:
  assumes "block_offsets cs = [0, 100000]"
  shows "\<exists>b. run_calls policy cs FilterBlockBuilder_init = Some b \<and>
     length (filter_offsets_' (snd (Finish policy b))) =
       100000 div kFilterBase +
         (case last cs of AddKey_call key \<Rightarrow> 1 | StartBlock_call block_offset \<Rightarrow> 0) \<and>
     (length (result_' (flushed policy b)) < 2 ^ 32 \<longrightarrow>
        num_' (FilterBlockReader_init (fst (Finish policy b))) =
          length (filter_offsets_' (snd (Finish policy b))))"
proof -
  from block_offsets_Cons [OF assms] obtain ks0 cs' where
    cs: "cs = map AddKey_call ks0 @ StartBlock_call 0 # cs'" and "block_offsets cs' = [100000]"
    by blast
  from block_offsets_Cons [OF this(2)] obtain ks1 cs'' where
    cs': "cs' = map AddKey_call ks1 @ StartBlock_call 100000 # cs''" and "block_offsets cs'' = []"
    by blast
  from block_offsets_Nil [OF this(2)] obtain ks2 where cs'': "cs'' = map AddKey_call ks2"
    by blast
  have shape: "cs = map AddKey_call ks0 @ StartBlock_call 0 # map AddKey_call ks1 @
      StartBlock_call 100000 # map AddKey_call ks2"
    by (simp add: cs cs' cs'')
  obtain b where b: "run_calls policy cs FilterBlockBuilder_init = Some b"
    "length (filter_offsets_' b) = 48" "length (start_' b) = length ks2"
    unfolding shape using sparse_run_keys by blast
  have last_call: "(case last cs of AddKey_call key \<Rightarrow> 1 | StartBlock_call block_offset \<Rightarrow> 0) =
      (if ks2 = [] then 0 else (1 :: nat))"
    unfolding shape by (cases ks2 rule: rev_cases) simp_all
  have pend: "start_' b = [] \<longleftrightarrow> ks2 = []"
    using b(3) by auto
  have n: "length (filter_offsets_' (snd (Finish policy b))) =
      100000 div kFilterBase +
        (case last cs of AddKey_call key \<Rightarrow> 1 | StartBlock_call block_offset \<Rightarrow> 0)"
    by (simp add: Finish_offsets_length b(2) pend last_call kFilterBase_eq)
  have "num_' (FilterBlockReader_init (fst (Finish policy b))) =
      length (filter_offsets_' (snd (Finish policy b)))"
    if "length (result_' (flushed policy b)) < 2 ^ 32"
    by (simp add: Finish_reader [OF that] Finish_offsets)
  with b(1) n show ?thesis
    by blast
qed

text \<open>
  The theorem at a run with a key before each boundary and a key after the second:
  49 buckets.
\<close>

theorem sparse_block_bucket_count_witness:
  "block_offsets
     [AddKey_call [1], StartBlock_call 0, AddKey_call [2], StartBlock_call 100000, AddKey_call [3]] =
     [0, 100000] \<and>
   run_calls example_policy
     [AddKey_call [1], StartBlock_call 0, AddKey_call [2], StartBlock_call 100000, AddKey_call [3]]
     FilterBlockBuilder_init =
     Some \<lparr>keys_' = [3], start_' = [0], result_' = [1, 2], tmp_keys_' = [],
            filter_offsets_' = 0 # replicate 47 2\<rparr> \<and>
   length (filter_offsets_' (snd (Finish example_policy
     \<lparr>keys_' = [3], start_' = [0], result_' = [1, 2], tmp_keys_' = [],
      filter_offsets_' = 0 # replicate 47 2\<rparr>))) = 100000 div kFilterBase + 1 \<and>
   length (result_' (flushed example_policy
     \<lparr>keys_' = [3], start_' = [0], result_' = [1, 2], tmp_keys_' = [],
      filter_offsets_' = 0 # replicate 47 2\<rparr>)) < 2 ^ 32 \<and>
   num_' (FilterBlockReader_init (fst (Finish example_policy
     \<lparr>keys_' = [3], start_' = [0], result_' = [1, 2], tmp_keys_' = [],
      filter_offsets_' = 0 # replicate 47 2\<rparr>))) = 49"
proof -
  let ?cs = "[AddKey_call [1], StartBlock_call 0, AddKey_call [2], StartBlock_call 100000,
              AddKey_call [3]]"
  let ?b = "\<lparr>keys_' = [3], start_' = [0], result_' = [1, 2], tmp_keys_' = [],
              filter_offsets_' = 0 # replicate 47 (2 :: u32)\<rparr>"
  have h: "block_offsets ?cs = [0, 100000]"
    by simp
  have small: "length (result_' (flushed example_policy ?b)) < 2 ^ 32"
    unfolding sparse_three_keys_flushed by simp
  from sparse_block_bucket_count [OF h, of example_policy]
  obtain b where r: "run_calls example_policy ?cs FilterBlockBuilder_init = Some b"
    and n: "length (filter_offsets_' (snd (Finish example_policy b))) =
       100000 div kFilterBase +
         (case last ?cs of AddKey_call key \<Rightarrow> 1 | StartBlock_call block_offset \<Rightarrow> 0)"
    and q: "length (result_' (flushed example_policy b)) < 2 ^ 32 \<longrightarrow>
        num_' (FilterBlockReader_init (fst (Finish example_policy b))) =
          length (filter_offsets_' (snd (Finish example_policy b)))"
    by blast
  from r have b: "b = ?b"
    by (simp only: sparse_run_three_keys option.inject)
  from n have n': "length (filter_offsets_' (snd (Finish example_policy ?b))) = 100000 div kFilterBase + 1"
    unfolding b by simp
  with q small have "num_' (FilterBlockReader_init (fst (Finish example_policy ?b))) = 49"
    unfolding b by (simp add: kFilterBase_eq)
  with h n' small show ?thesis
    using sparse_run_three_keys by simp
qed

text \<open>
  C5 as stated fails on the run it names, the two boundaries and no key: the block has
  48 buckets, not \<open>100000 div 2048 + 1 = 49\<close>.
\<close>

theorem sparse_block_bucket_count_counterexample:
  "block_offsets [StartBlock_call 0, StartBlock_call 100000] = [0, 100000] \<and>
   run_calls example_policy [StartBlock_call 0, StartBlock_call 100000] FilterBlockBuilder_init =
     Some \<lparr>keys_' = [], start_' = [], result_' = [], tmp_keys_' = [],
            filter_offsets_' = replicate 48 0\<rparr> \<and>
   length (filter_offsets_' (snd (Finish example_policy
     \<lparr>keys_' = [], start_' = [], result_' = [], tmp_keys_' = [],
      filter_offsets_' = replicate 48 0\<rparr>))) = 48 \<and>
   num_' (FilterBlockReader_init (fst (Finish example_policy
     \<lparr>keys_' = [], start_' = [], result_' = [], tmp_keys_' = [],
      filter_offsets_' = replicate 48 0\<rparr>))) = 48 \<and>
   100000 div kFilterBase + 1 = 49"
proof -
  let ?b = "\<lparr>keys_' = [], start_' = [], result_' = [], tmp_keys_' = [],
              filter_offsets_' = replicate 48 (0 :: u32)\<rparr>"
  have "length (filter_offsets_' (snd (Finish example_policy ?b))) = 48"
    and "num_' (FilterBlockReader_init (fst (Finish example_policy ?b))) = 48"
    using sparse_Finish [of ?b example_policy] by simp_all
  then show ?thesis
    using sparse_run_no_keys [of example_policy] by (simp add: kFilterBase_eq)
qed

subsection \<open>C6: the directory\<close>

text \<open>
  C6, amended. Let \<^verbatim>\<open>Finish\<close> follow a call sequence in which no assertion fails, with
  \<open>n\<close> directory entries and fewer than \<open>2 ^ 32\<close> filter bytes. Then in the returned
  block the directory starts where the filter bytes end; the directory takes exactly
  \<open>4 * n\<close> bytes, between its start and the last 5 bytes; the \<open>n\<close> decoded entries are the
  builder's offsets, each at most the directory start, and they never decrease; and
  the 4-byte word that follows the last entry (the directory-start field) equals the
  position where the directory begins. The last of the \<open>n\<close> entries is the start of
  the last filter: it is bounded by the directory start, and nothing more is said of
  it.
\<close>

theorem monotonic_directory:
  assumes run: "run_calls policy cs FilterBlockBuilder_init = Some b"
    and small: "length (result_' (flushed policy b)) < 2 ^ 32"
  shows "directory_start (fst (Finish policy b)) = length (result_' (flushed policy b)) \<and>
     length (fst (Finish policy b)) =
       directory_start (fst (Finish policy b)) + 4 * length (filter_offsets_' (snd (Finish policy b))) + 5 \<and>
     (\<forall>i < length (filter_offsets_' (snd (Finish policy b))).
        directory_entry (fst (Finish policy b)) i = filter_offsets_' (snd (Finish policy b)) ! i \<and>
        unat (directory_entry (fst (Finish policy b)) i) \<le> directory_start (fst (Finish policy b))) \<and>
     (\<forall>i j. i \<le> j \<and> j < length (filter_offsets_' (snd (Finish policy b))) \<longrightarrow>
        directory_entry (fst (Finish policy b)) i \<le> directory_entry (fst (Finish policy b)) j) \<and>
     unat (directory_entry (fst (Finish policy b)) (length (filter_offsets_' (snd (Finish policy b))))) =
       directory_start (fst (Finish policy b))"
proof -
  define b1 where "b1 = flushed policy b"
  define offs where "offs = filter_offsets_' b1"
  have small_b: "length (result_' b) < 2 ^ 32"
    using small flushed_result [of policy b] by auto
  have "builder_inv b"
    using run small_b builder_inv_init by (rule run_calls_inv)
  then have "builder_inv b1"
    unfolding b1_def using small by (rule builder_inv_flushed)
  then have ok: "sorted (map unat offs)" "\<forall>off \<in> set offs. unat off \<le> length (result_' b1)"
    by (simp_all add: builder_inv_def offsets_ok_def offs_def)
  have ds: "directory_start (fst (Finish policy b)) = length (result_' b1)"
    unfolding b1_def using small by (rule directory_start_Finish)
  have entry: "directory_entry (fst (Finish policy b)) i = offs ! i" if "i < length offs" for i
    using directory_entry_Finish [OF small, of i] that
    by (simp add: offs_def b1_def nth_append)
  have last_word: "unat (directory_entry (fst (Finish policy b)) (length offs)) = length (result_' b1)"
    using directory_entry_Finish [OF small, of "length offs"] small
    by (simp add: offs_def b1_def unat_small)
  have bound: "unat (offs ! i) \<le> length (result_' b1)" if "i < length offs" for i
    using ok(2) that by simp
  have mono: "offs ! i \<le> offs ! j" if "i \<le> j" "j < length offs" for i j
    using ok(1) that by (simp add: sorted_iff_nth_mono word_le_nat_alt)
  show ?thesis
    using ds entry last_word bound mono
    by (simp add: Finish_offsets length_Finish b1_def [symmetric] offs_def [symmetric])
qed

text \<open>The theorem at the run with two buckets: the entries are 0 and 1, the directory starts at 3.\<close>

theorem monotonic_directory_witness:
  "run_calls example_policy [AddKey_call [1], StartBlock_call 2048, AddKey_call [2], AddKey_call [3]]
       FilterBlockBuilder_init =
     Some \<lparr>keys_' = [2, 3], start_' = [0, 1], result_' = [1], tmp_keys_' = [], filter_offsets_' = [0]\<rparr> \<and>
   length (result_' (flushed example_policy
       \<lparr>keys_' = [2, 3], start_' = [0, 1], result_' = [1], tmp_keys_' = [], filter_offsets_' = [0]\<rparr>)) = 3 \<and>
   (3 :: nat) < 2 ^ 32 \<and>
   length (filter_offsets_' (snd (Finish example_policy
       \<lparr>keys_' = [2, 3], start_' = [0, 1], result_' = [1], tmp_keys_' = [], filter_offsets_' = [0]\<rparr>))) = 2 \<and>
   fst (Finish example_policy
       \<lparr>keys_' = [2, 3], start_' = [0, 1], result_' = [1], tmp_keys_' = [], filter_offsets_' = [0]\<rparr>) =
     [1, 2, 3, 0, 0, 0, 0, 1, 0, 0, 0, 3, 0, 0, 0, 11] \<and>
   directory_start [1, 2, 3, 0, 0, 0, 0, 1, 0, 0, 0, 3, 0, 0, 0, 11] = 3 \<and>
   length ([1, 2, 3, 0, 0, 0, 0, 1, 0, 0, 0, 3, 0, 0, 0, 11] :: bytes) = 3 + 4 * 2 + 5 \<and>
   directory_entry [1, 2, 3, 0, 0, 0, 0, 1, 0, 0, 0, 3, 0, 0, 0, 11] 0 = 0 \<and>
   directory_entry [1, 2, 3, 0, 0, 0, 0, 1, 0, 0, 0, 3, 0, 0, 0, 11] 1 = 1 \<and>
   directory_entry [1, 2, 3, 0, 0, 0, 0, 1, 0, 0, 0, 3, 0, 0, 0, 11] 0
     \<le> directory_entry [1, 2, 3, 0, 0, 0, 0, 1, 0, 0, 0, 3, 0, 0, 0, 11] 1 \<and>
   unat (directory_entry [1, 2, 3, 0, 0, 0, 0, 1, 0, 0, 0, 3, 0, 0, 0, 11] 1) \<le> 3 \<and>
   unat (directory_entry [1, 2, 3, 0, 0, 0, 0, 1, 0, 0, 0, 3, 0, 0, 0, 11] 2) = 3"
proof -
  let ?b = "\<lparr>keys_' = [2, 3], start_' = [0, 1], result_' = [1], tmp_keys_' = [],
             filter_offsets_' = [0 :: u32]\<rparr>"
  let ?out = "[1, 2, 3, 0, 0, 0, 0, 1, 0, 0, 0, 3, 0, 0, 0, 11] :: bytes"
  have small: "length (result_' (flushed example_policy ?b)) < 2 ^ 32"
    unfolding example_flushed by simp
  have n: "length (filter_offsets_' (snd (Finish example_policy ?b))) = 2"
    and offs: "filter_offsets_' (snd (Finish example_policy ?b)) = [0, 1]"
    unfolding Finish_builder example_flushed by simp_all
  note th = monotonic_directory [OF example_run small, unfolded example_Finish n offs example_flushed]
  have ds: "directory_start ?out = 3"
    using th by simp
  have len: "length ?out = 3 + 4 * 2 + 5"
    by simp
  have e0: "directory_entry ?out 0 = 0"
    using th [THEN conjunct2, THEN conjunct2, THEN conjunct1, rule_format, of 0] by simp
  have e1: "directory_entry ?out 1 = 1" and e1': "unat (directory_entry ?out 1) \<le> 3"
    using th [THEN conjunct2, THEN conjunct2, THEN conjunct1, rule_format, of 1] ds by simp_all
  have m: "directory_entry ?out 0 \<le> directory_entry ?out 1"
    using th [THEN conjunct2, THEN conjunct2, THEN conjunct2, THEN conjunct1, rule_format, of 0 1]
    by simp
  have last_word: "unat (directory_entry ?out 2) = 3"
    using th [THEN conjunct2, THEN conjunct2, THEN conjunct2, THEN conjunct2] ds
    by (simp add: numeral_2_eq_2)
  show ?thesis
    unfolding example_Finish n example_flushed
    using ds len e0 e1 e1' m last_word example_run by simp
qed

text \<open>
  C6 as stated fails: after one key with a filter of one byte the block has one
  entry, which is 0, while the directory begins at byte 1.
\<close>

theorem monotonic_directory_counterexample:
  "run_calls example_policy [AddKey_call [7]] FilterBlockBuilder_init =
     Some (AddKey FilterBlockBuilder_init [7]) \<and>
   fst (Finish example_policy (AddKey FilterBlockBuilder_init [7])) = [7, 0, 0, 0, 0, 1, 0, 0, 0, 11] \<and>
   length (filter_offsets_' (snd (Finish example_policy (AddKey FilterBlockBuilder_init [7])))) = 1 \<and>
   directory_start [7, 0, 0, 0, 0, 1, 0, 0, 0, 11] = 1 \<and>
   unat (directory_entry [7, 0, 0, 0, 0, 1, 0, 0, 0, 11] (1 - 1)) = 0"
  unfolding one_key_Finish by (simp add: directory_start_def directory_entry_def)

subsection \<open>C7: the effect of StartBlock\<close>

text \<open>
  C7. If \<open>block_offset div kFilterBase\<close> is at least the number of directory entries
  written so far, the assertion of \<^verbatim>\<open>StartBlock\<close> holds and the call returns; afterwards
  the number of directory entries is \<open>block_offset div kFilterBase\<close>, the earlier entries
  are unchanged, and one entry was appended for each bucket between the old count and
  the new one.
\<close>

theorem StartBlock_effect:
  assumes "length (filter_offsets_' b) \<le> unat block_offset div kFilterBase"
  shows "\<exists>b'. StartBlock policy b block_offset = Some b' \<and>
     length (filter_offsets_' b') = unat block_offset div kFilterBase \<and>
     (\<exists>offs. filter_offsets_' b' = filter_offsets_' b @ offs \<and>
        length offs = unat block_offset div kFilterBase - length (filter_offsets_' b))"
proof -
  define b' where "b' = StartBlock_loop policy (unat block_offset div 2048) b"
  have le: "length (filter_offsets_' b) \<le> unat block_offset div 2048"
    using assms by (simp add: kFilterBase_eq)
  then have s: "StartBlock policy b block_offset = Some b'"
    by (simp add: StartBlock_Some b'_def)
  have len: "length (filter_offsets_' b') = unat block_offset div 2048"
    using le by (simp add: b'_def StartBlock_loop_offsets_length)
  obtain offs where offs: "filter_offsets_' b' = filter_offsets_' b @ offs"
    unfolding b'_def using StartBlock_loop_prefix by blast
  with len have "length offs = unat block_offset div 2048 - length (filter_offsets_' b)"
    by simp
  with s len offs show ?thesis
    by (simp add: kFilterBase_eq)
qed

text \<open>The theorem at the fresh builder and the block offset 4096: two entries are appended.\<close>

theorem StartBlock_effect_witness:
  "length (filter_offsets_' FilterBlockBuilder_init) \<le> unat (4096 :: u64) div kFilterBase \<and>
   unat (4096 :: u64) div kFilterBase = 2 \<and>
   StartBlock example_policy FilterBlockBuilder_init 4096 =
     Some \<lparr>keys_' = [], start_' = [], result_' = [], tmp_keys_' = [], filter_offsets_' = [0, 0]\<rparr> \<and>
   filter_offsets_' \<lparr>keys_' = [], start_' = [], result_' = [], tmp_keys_' = [], filter_offsets_' = [0, 0 :: u32]\<rparr> =
     filter_offsets_' FilterBlockBuilder_init @ [0, 0]"
proof -
  have h: "length (filter_offsets_' FilterBlockBuilder_init) \<le> unat (4096 :: u64) div kFilterBase"
    by (simp add: FilterBlockBuilder_init_def)
  have e: "StartBlock example_policy FilterBlockBuilder_init 4096 =
     Some \<lparr>keys_' = [], start_' = [], result_' = [], tmp_keys_' = [], filter_offsets_' = [0, 0]\<rparr>"
    by (simp add: StartBlock_def Let_def FilterBlockBuilder_init_def kFilterBase_def kFilterBaseLg_def
        StartBlock_loop.simps GenerateFilter_def)
  from StartBlock_effect [OF h, of example_policy] e h show ?thesis
    by (simp add: kFilterBase_eq FilterBlockBuilder_init_def)
qed

subsection \<open>C8: the footer\<close>

text \<open>
  C8, amended. Let \<^verbatim>\<open>Finish\<close> follow a call sequence in which no assertion fails, with
  \<open>n\<close> directory entries and \<open>F\<close> filter bytes, \<open>F < 2 ^ 32\<close>. Then the returned block has
  \<open>F + 4 * n + 4 + 1\<close> bytes, its last byte is 11, and the reader constructed from it is
  in the valid state with shift 11 and bucket count \<open>n\<close>. Here \<open>F\<close> is the length of the
  result buffer once \<^verbatim>\<open>Finish\<close> has flushed the pending keys.
\<close>

theorem footer_round_trip:
  assumes "run_calls policy cs FilterBlockBuilder_init = Some b"
    and "length (result_' (flushed policy b)) < 2 ^ 32"
  shows "length (fst (Finish policy b)) =
       length (result_' (flushed policy b)) + 4 * length (filter_offsets_' (snd (Finish policy b))) + 4 + 1 \<and>
     last (fst (Finish policy b)) = 11 \<and>
     data_' (FilterBlockReader_init (fst (Finish policy b))) = Some (fst (Finish policy b)) \<and>
     base_lg_' (FilterBlockReader_init (fst (Finish policy b))) = 11 \<and>
     num_' (FilterBlockReader_init (fst (Finish policy b))) = length (filter_offsets_' (snd (Finish policy b)))"
  by (simp add: Finish_reader [OF assms(2)] length_Finish last_Finish Finish_offsets)

text \<open>The theorem at the run with two buckets and three filter bytes.\<close>

theorem footer_round_trip_witness:
  "run_calls example_policy [AddKey_call [1], StartBlock_call 2048, AddKey_call [2], AddKey_call [3]]
       FilterBlockBuilder_init =
     Some \<lparr>keys_' = [2, 3], start_' = [0, 1], result_' = [1], tmp_keys_' = [], filter_offsets_' = [0]\<rparr> \<and>
   length (result_' (flushed example_policy
       \<lparr>keys_' = [2, 3], start_' = [0, 1], result_' = [1], tmp_keys_' = [], filter_offsets_' = [0]\<rparr>)) = 3 \<and>
   (3 :: nat) < 2 ^ 32 \<and>
   length (filter_offsets_' (snd (Finish example_policy
       \<lparr>keys_' = [2, 3], start_' = [0, 1], result_' = [1], tmp_keys_' = [], filter_offsets_' = [0]\<rparr>))) = 2 \<and>
   fst (Finish example_policy
       \<lparr>keys_' = [2, 3], start_' = [0, 1], result_' = [1], tmp_keys_' = [], filter_offsets_' = [0]\<rparr>) =
     [1, 2, 3, 0, 0, 0, 0, 1, 0, 0, 0, 3, 0, 0, 0, 11] \<and>
   length ([1, 2, 3, 0, 0, 0, 0, 1, 0, 0, 0, 3, 0, 0, 0, 11] :: bytes) = 3 + 4 * 2 + 4 + 1 \<and>
   last ([1, 2, 3, 0, 0, 0, 0, 1, 0, 0, 0, 3, 0, 0, 0, 11] :: bytes) = 11 \<and>
   data_' (FilterBlockReader_init [1, 2, 3, 0, 0, 0, 0, 1, 0, 0, 0, 3, 0, 0, 0, 11]) =
     Some [1, 2, 3, 0, 0, 0, 0, 1, 0, 0, 0, 3, 0, 0, 0, 11] \<and>
   base_lg_' (FilterBlockReader_init [1, 2, 3, 0, 0, 0, 0, 1, 0, 0, 0, 3, 0, 0, 0, 11]) = 11 \<and>
   num_' (FilterBlockReader_init [1, 2, 3, 0, 0, 0, 0, 1, 0, 0, 0, 3, 0, 0, 0, 11]) = 2"
proof -
  let ?b = "\<lparr>keys_' = [2, 3], start_' = [0, 1], result_' = [1], tmp_keys_' = [],
             filter_offsets_' = [0 :: u32]\<rparr>"
  have small: "length (result_' (flushed example_policy ?b)) < 2 ^ 32"
    unfolding example_flushed by simp
  have n: "length (filter_offsets_' (snd (Finish example_policy ?b))) = 2"
    unfolding Finish_builder example_flushed by simp
  from footer_round_trip [OF example_run small] show ?thesis
    unfolding example_Finish n example_flushed using example_run by simp
qed

text \<open>
  C8 as stated fails for \<open>F = 2 ^ 32\<close>: one directory entry is written, the directory
  start is stored as 0, and the reader counts \<open>2 ^ 30 + 1\<close> buckets.
\<close>

theorem footer_round_trip_counterexample:
  "run_calls huge_policy [AddKey_call [7]] FilterBlockBuilder_init =
     Some (AddKey FilterBlockBuilder_init [7]) \<and>
   length (result_' (flushed huge_policy (AddKey FilterBlockBuilder_init [7]))) = 2 ^ 32 \<and>
   length (filter_offsets_' (snd (Finish huge_policy (AddKey FilterBlockBuilder_init [7])))) = 1 \<and>
   num_' (FilterBlockReader_init (fst (Finish huge_policy (AddKey FilterBlockBuilder_init [7])))) =
     2 ^ 30 + 1"
  unfolding huge_reader by (simp add: Finish_builder huge_flushed length_huge_filter)

subsection \<open>C9: queries are deterministic and leave the reader alone\<close>

text \<open>
  C9. For every reader, valid or degraded, and all arguments, \<^verbatim>\<open>KeyMayMatch\<close> returns the
  reader unchanged (data pointer, directory pointer, bucket count and shift), and a
  second call with the same arguments on the reader left by the first gives the same
  answer. The policy's \<^verbatim>\<open>KeyMayMatch\<close> is a function of the key and the filter.
\<close>

theorem query_deterministic:
  "snd (KeyMayMatch policy r block_offset key) = r \<and>
   KeyMayMatch policy (snd (KeyMayMatch policy r block_offset key)) block_offset key =
     KeyMayMatch policy r block_offset key"
proof -
  have "snd (KeyMayMatch policy r block_offset key) = r"
    by (simp add: KeyMayMatch_def Let_def split: option.splits)
  then show ?thesis
    by simp
qed

subsection \<open>C10: the empty builder\<close>

text \<open>
  C10. \<^verbatim>\<open>Finish\<close> on a fresh builder returns exactly the 5 bytes 0, 0, 0, 0, 11; the reader
  of that block is in the valid state with bucket count 0, and \<^verbatim>\<open>KeyMayMatch\<close> answers true
  for every block offset and every key.
\<close>

theorem empty_builder:
  "fst (Finish policy FilterBlockBuilder_init) = [0, 0, 0, 0, 11] \<and>
   data_' (FilterBlockReader_init (fst (Finish policy FilterBlockBuilder_init))) = Some [0, 0, 0, 0, 11] \<and>
   num_' (FilterBlockReader_init (fst (Finish policy FilterBlockBuilder_init))) = 0 \<and>
   KeyMayMatch policy (FilterBlockReader_init (fst (Finish policy FilterBlockBuilder_init))) block_offset key =
     (Some True, FilterBlockReader_init (fst (Finish policy FilterBlockBuilder_init)))"
proof -
  have out: "fst (Finish policy FilterBlockBuilder_init) = [0, 0, 0, 0, 11]"
    by (simp add: Finish_def Let_def FilterBlockBuilder_init_def PutFixed32_def EncodeFixed32_def
        kFilterBaseLg_def)
  have r: "FilterBlockReader_init [0, 0, 0, 0, 11] =
      \<lparr>data_' = Some [0, 0, 0, 0, 11], offset_' = Some 0, num_' = 0, base_lg_' = 11\<rparr>"
    by (simp add: FilterBlockReader_init_def Let_def)
  show ?thesis
    unfolding out r by (simp add: KeyMayMatch_def)
qed

end
